theory Spec2Isabelle
  imports Main "HOL-Library.Char_ord" "HOL-Library.List_Lexorder"
begin

section \<open>ExampleHTTPServer: request parser and response serializer (HttpServer.hh)\<close>

text \<open>
  Bytes are \<^typ>\<open>char\<close>, a \<open>std::string\<close> is a \<^typ>\<open>string\<close>. With
  \<open>Char_ord\<close> and \<open>List_Lexorder\<close> the order on \<^typ>\<open>string\<close> is the one of
  \<open>std::string::operator<\<close>: lexicographic on the byte values read as unsigned, a proper
  prefix being smaller.
\<close>

subsection \<open>Characters and small helpers\<close>

abbreviation CR :: char where "CR \<equiv> CHR 0x0D"
abbreviation LF :: char where "LF \<equiv> CHR 0x0A"
abbreviation CRLF :: string where "CRLF \<equiv> [CR, LF]"
abbreviation DQUOTE :: char where "DQUOTE \<equiv> CHR 0x22"
abbreviation SQUOTE :: char where "SQUOTE \<equiv> CHR 0x27"

text \<open>
  \<open>isdigit\<close> of \<open>ctype.h\<close> in the "C" locale: true for the bytes \<open>'0'\<close> .. \<open>'9'\<close> only
  (the program never calls \<open>setlocale\<close>). A byte above 0x7F is a negative \<open>char\<close> where
  \<open>char\<close> is signed, and the C standard leaves \<open>isdigit\<close> of it undefined; it is taken as
  not a digit, which is what the lookup table of the usual C libraries answers.
\<close>

definition isdigit :: "char \<Rightarrow> bool" where
  "isdigit c = (CHR ''0'' \<le> c \<and> c \<le> CHR ''9'')"

text \<open>\<open>(int)buffer[i] - '0'\<close>\<close>

definition digit_value :: "char \<Rightarrow> int" where
  "digit_value c = int (of_char c) - 48"

text \<open>\<open>strtolower\<close> (lines 568-576): adds 32 to every byte in \<open>'A'\<close> .. \<open>'Z'\<close>.\<close>

definition tolower_char :: "char \<Rightarrow> char" where
  "tolower_char c =
     (if CHR ''A'' \<le> c \<and> c \<le> CHR ''Z'' then char_of (of_char c + (32::nat)) else c)"

definition strtolower :: "string \<Rightarrow> string" where
  "strtolower str = map tolower_char str"

text \<open>\<open>std::to_string\<close> on a \<open>size_t\<close> and on an \<open>int\<close>: the decimal digits, with a minus sign
  for a negative \<open>int\<close>.\<close>

definition digit_char :: "nat \<Rightarrow> char" where
  "digit_char d = ''0123456789'' ! d"

fun to_string_nat :: "nat \<Rightarrow> string" where
  "to_string_nat n =
     (if n < 10 then [digit_char n]
      else to_string_nat (n div 10) @ [digit_char (n mod 10)])"

declare to_string_nat.simps [simp del]

definition to_string :: "int \<Rightarrow> string" where
  "to_string i = (if i < 0 then CHR ''-'' # to_string_nat (nat (- i)) else to_string_nat (nat i))"

subsection \<open>\<open>std::map<std::string, std::string>\<close>\<close>

text \<open>
  A \<open>std::map\<close> is an ordered container: it holds one entry per key and iterates over its
  entries in ascending key order. It is modelled by the list of its entries in iteration
  order.
\<close>

type_synonym strmap = "(string \<times> string) list"

text \<open>\<open>m[k] = v\<close>\<close>

fun map_assign :: "strmap \<Rightarrow> string \<Rightarrow> string \<Rightarrow> strmap" where
  "map_assign [] k v = [(k, v)]"
| "map_assign ((k', v') # m) k v =
     (if k < k' then (k, v) # (k', v') # m
      else if k = k' then (k, v) # m
      else (k', v') # map_assign m k v)"

text \<open>
  \<open>m[k]\<close> read as a value: \<open>operator[]\<close> inserts the key with an empty string when it is
  absent and returns a reference to the entry's value. The result is the map after the
  access and the value.
\<close>

definition map_index :: "strmap \<Rightarrow> string \<Rightarrow> strmap \<times> string" where
  "map_index m k =
     (case map_of m k of
        Some v \<Rightarrow> (m, v)
      | None \<Rightarrow> (map_assign m k [], []))"

subsection \<open>Request (lines 70-97) and Response (lines 102-202)\<close>

text \<open>The socket and the peer address of a \<open>Request\<close> take no part in parsing and are left
  out.\<close>

record Request =
  hasError :: bool
  "method" :: string
  url :: string
  queryString :: string
  httpMajorVersion :: int
  httpMinorVersion :: int
  req_headers :: strmap

definition newRequest :: Request where
  "newRequest =
     \<lparr>hasError = False, method = [], url = [], queryString = [],
      httpMajorVersion = 0, httpMinorVersion = 0, req_headers = []\<rparr>"

record Response =
  statusCode :: int
  headers :: strmap
  body :: string

definition newResponse :: Response where
  "newResponse = \<lparr>statusCode = 200, headers = [], body = []\<rparr>"

subsection \<open>\<open>httpStatusMessage\<close> (lines 527-562)\<close>

text \<open>The table, with its terminating entry \<open>{0, NULL}\<close>; \<open>None\<close> is the null pointer.\<close>

definition msg :: "(int \<times> string option) list" where
  "msg =
    [(200, Some ''Ok''),
     (301, Some ''Moved Permanently''),
     (302, Some ''Found''),
     (304, Some ''Not Modified''),
     (307, Some ''Temporary Redirect''),
     (400, Some ''Bad Request''),
     (401, Some ''Unauthorized''),
     (403, Some ''Forbidden''),
     (404, Some ''Not Found''),
     (405, Some ''Method Not Allowed''),
     (411, Some ''Length Required''),
     (413, Some ''Request Entity Too Large''),
     (414, Some ''Request-URI Too Long''),
     (429, Some ''Too Many Requests''),
     (500, Some ''Internal Server Error''),
     (502, Some ''Bad Gateway''),
     (503, Some ''Service Unavailable''),
     (504, Some ''Gateway Timeout''),
     (505, Some ''HTTP Version Not Supported''),
     (0, None)]"

text \<open>The loop \<open>for (i=0; msg[i].httpStatusCode != 0; ++i)\<close> over the rest of the table.\<close>

fun status_loop :: "(int \<times> string option) list \<Rightarrow> int \<Rightarrow> string option" where
  "status_loop [] httpStatusCode = None"
| "status_loop ((code, message) # rest) httpStatusCode =
     (if code = 0 then None
      else if code = httpStatusCode then message
      else status_loop rest httpStatusCode)"

definition httpStatusMessage :: "int \<Rightarrow> string option" where
  "httpStatusMessage httpStatusCode = status_loop msg httpStatusCode"

subsection \<open>\<open>Response::header\<close>, \<open>Response::errorPage\<close>, \<open>Response::send\<close>\<close>

text \<open>
  \<open>std::string::operator+=(const char *)\<close> requires a pointer to a null-terminated string;
  with a null pointer the behaviour is undefined (it reads through the pointer to find the
  length). That outcome is the value \<open>Inl NullPointerAppend\<close>.
\<close>

datatype fault = NullPointerAppend

definition header :: "Response \<Rightarrow> string \<Rightarrow> string \<Rightarrow> Response" where
  "header res key val = res\<lparr>headers := map_assign (headers res) key val\<rparr>"

definition errorPage :: "Response \<Rightarrow> fault + Response" where
  "errorPage res =
     (let res1 = header res ''Content-Type'' ''text/html'';
          res2 = header res1 ''Cache-Control'' ''no-cache, no-store, must-revalidate'';
          b = ''<!doctype html><html lang='' @ [DQUOTE] @ ''en'' @ [DQUOTE] @ ''>''
              @ ''<head><title>Error</title></head>''
              @ ''<body><h1>Error ''
              @ to_string (statusCode res2)
              @ ''</h1><hr><p>''
      in case httpStatusMessage (statusCode res2) of
           None \<Rightarrow> Inl NullPointerAppend
         | Some m \<Rightarrow> Inr (res2\<lparr>body := b @ m @ ''</p></body></html>''\<rparr>))"

text \<open>One header line of the loop at lines 159-164.\<close>

definition header_line :: "string \<times> string \<Rightarrow> string" where
  "header_line h = fst h @ '': '' @ snd h @ CRLF"

text \<open>
  \<open>Response::send\<close>. \<open>Response::write\<close> hands a buffer to the socket and returns an
  \<open>ssize_t\<close>; the socket is the parameter \<open>wr\<close>, giving that result for a buffer. The
  request is the one \<open>this->req\<close> points to. The result is the returned flag, the response
  after the call, and the buffers passed to \<open>write\<close>, in order.
\<close>

definition send :: "(string \<Rightarrow> int) \<Rightarrow> Request \<Rightarrow> Response \<Rightarrow> fault + (bool \<times> Response \<times> string list)" where
  "send wr rq res0 =
     (let res1 = res0\<lparr>headers := map_assign (headers res0) ''Content-Length''
                                  (to_string_nat (length (body res0)))\<rparr>;
          res = res1\<lparr>headers := map_assign (headers res1) ''Conection'' ''close''\<rparr>
      in case httpStatusMessage (statusCode res) of
           None \<Rightarrow> Inl NullPointerAppend
         | Some m \<Rightarrow>
             (let head = ''HTTP/1.''
                    @ [if httpMinorVersion rq = 0 then CHR ''0'' else CHR ''1'']
                    @ '' ''
                    @ to_string (statusCode res)
                    @ '' ''
                    @ m
                    @ CRLF
                    @ concat (map header_line (headers res))
                    @ CRLF
              in if wr head < 0 then Inr (False, res, [head])
                 else if wr (body res) < 0 then Inr (False, res, [head, body res])
                 else Inr (True, res, [head, body res])))"

subsection \<open>\<open>httpRequestParse\<close> (lines 234-350)\<close>

datatype parser_state =
    PARSER_STATE_METHOD
  | PARSER_STATE_URL
  | PARSER_STATE_URL_QS
  | PARSER_STATE_PROTOCOL
  | PARSER_STATE_MAJOR
  | PARSER_STATE_MINOR
  | PARSER_STATE_HEADERS

text \<open>The request being filled and the locals \<open>tmp\<close>, \<open>state\<close> and \<open>isKey\<close>.\<close>

record parser =
  req :: Request
  tmp :: string
  state :: parser_state
  isKey :: bool

definition parser_init :: "Request \<Rightarrow> parser" where
  "parser_init rq = \<lparr>req = rq, tmp = [], state = PARSER_STATE_METHOD, isKey = True\<rparr>"

text \<open>The "simple XSS filter" test of lines 265 and 282.\<close>

definition xss_char :: "char \<Rightarrow> bool" where
  "xss_char c = (c = CHR ''<'' \<or> c = CHR ''>'' \<or> c = DQUOTE \<or> c = SQUOTE)"

text \<open>One iteration of the \<open>for\<close> loop on the byte \<open>c = buffer[i]\<close>.\<close>

definition parse_headers_char :: "parser \<Rightarrow> char \<Rightarrow> parser" where
  "parse_headers_char p c =
     (if c = LF then p\<lparr>isKey := True, tmp := []\<rparr>
      else if isKey p \<and> c = CHR '':'' then
        (let k = strtolower (tmp p)
         in p\<lparr>tmp := k,
              req := (req p)\<lparr>req_headers := map_assign (req_headers (req p)) k []\<rparr>,
              isKey := False\<rparr>)
      else if isKey p then p\<lparr>tmp := tmp p @ [c]\<rparr>
      else if c = CR then p
      else
        (let (hs, v) = map_index (req_headers (req p)) (tmp p)
         in if length v = 0 \<and> c = CHR '' ''
            then p\<lparr>req := (req p)\<lparr>req_headers := hs\<rparr>\<rparr>
            else
              (let (hs', v') = map_index hs (tmp p)
               in p\<lparr>req := (req p)\<lparr>req_headers := map_assign hs' (tmp p) (v' @ [c])\<rparr>\<rparr>)))"

definition parse_char :: "parser \<Rightarrow> char \<Rightarrow> parser" where
  "parse_char p c =
     (case state p of
        PARSER_STATE_METHOD \<Rightarrow>
          (if c = CHR '' '' then
             p\<lparr>req := (req p)\<lparr>method := tmp p\<rparr>, state := PARSER_STATE_URL, tmp := []\<rparr>
           else p\<lparr>tmp := tmp p @ [c]\<rparr>)
      | PARSER_STATE_URL \<Rightarrow>
          (if c = CHR '' '' \<or> c = CHR ''?'' then
             p\<lparr>req := (req p)\<lparr>url := tmp p\<rparr>,
               state := (if c = CHR ''?'' then PARSER_STATE_URL_QS else PARSER_STATE_PROTOCOL),
               tmp := []\<rparr>
           else if xss_char c then p
           else p\<lparr>tmp := tmp p @ [c]\<rparr>)
      | PARSER_STATE_URL_QS \<Rightarrow>
          (if c = CHR '' '' then
             p\<lparr>req := (req p)\<lparr>queryString := tmp p\<rparr>, state := PARSER_STATE_PROTOCOL, tmp := []\<rparr>
           else if xss_char c then p
           else p\<lparr>tmp := tmp p @ [c]\<rparr>)
      | PARSER_STATE_PROTOCOL \<Rightarrow>
          (if c = CHR ''/'' then
             p\<lparr>req := (if tmp p \<noteq> ''HTTP'' then (req p)\<lparr>hasError := True\<rparr> else req p),
               state := PARSER_STATE_MAJOR, tmp := []\<rparr>
           else p\<lparr>tmp := tmp p @ [c]\<rparr>)
      | PARSER_STATE_MAJOR \<Rightarrow>
          (if isdigit c then p\<lparr>req := (req p)\<lparr>httpMajorVersion := digit_value c\<rparr>\<rparr>
           else if c = CHR ''.'' then p\<lparr>state := PARSER_STATE_MINOR\<rparr>
           else p)
      | PARSER_STATE_MINOR \<Rightarrow>
          (let p1 = (if isdigit c then p\<lparr>req := (req p)\<lparr>httpMinorVersion := digit_value c\<rparr>\<rparr>
                     else p)
           in if c = LF then p1\<lparr>state := PARSER_STATE_HEADERS\<rparr> else p1)
      | PARSER_STATE_HEADERS \<Rightarrow> parse_headers_char p c)"

text \<open>The loop over \<open>buffer[0]\<close> .. \<open>buffer[length - 1]\<close>.\<close>

fun parse_loop :: "parser \<Rightarrow> string \<Rightarrow> parser" where
  "parse_loop p [] = p"
| "parse_loop p (c # buffer) = parse_loop (parse_char p c) buffer"

text \<open>
  \<open>httpRequestParse(req, buffer, length)\<close>, with \<open>buffer\<close> the \<open>length\<close> bytes read: the
  loop, the check of the major version after it, and the returned \<open>true\<close>.
\<close>

definition httpRequestParse :: "Request \<Rightarrow> string \<Rightarrow> bool \<times> Request" where
  "httpRequestParse rq buffer =
     (let r = req (parse_loop (parser_init rq) buffer)
      in (True, if httpMajorVersion r \<noteq> 1 then r\<lparr>hasError := True\<rparr> else r))"

subsection \<open>\<open>serverRequestHandler\<close> (lines 379-442)\<close>

text \<open>
  What one connection ends in. \<open>recv\<close> is the environment: \<open>recvLen\<close> is its result and
  \<open>buffer\<close> the bytes it stored. The callback is a function of the request and the
  response whose result \<open>'r\<close> stands for everything it does; \<open>None\<close> is the \<open>NULL\<close>
  callback. Every path closes the socket afterwards.
\<close>

datatype 'r outcome =
    PeerClosed
  | RecvFailed
  | ParseFailed
  | Crashed fault
  | ErrorSent bool Response "string list"
  | Dispatched 'r
  | NoCallback

definition serverRequestHandler ::
    "(Request \<Rightarrow> Response \<Rightarrow> 'r) option \<Rightarrow> (string \<Rightarrow> int) \<Rightarrow> int \<Rightarrow> string \<Rightarrow> 'r outcome" where
  "serverRequestHandler onRequestCallback wr recvLen buffer =
     (if recvLen = 0 then PeerClosed
      else if recvLen < 0 then RecvFailed
      else
        (let (rc, rq) = httpRequestParse newRequest (take (nat recvLen) buffer)
         in if \<not> rc then ParseFailed
            else if hasError rq then
              (case errorPage (newResponse\<lparr>statusCode := 400\<rparr>) of
                 Inl f \<Rightarrow> Crashed f
               | Inr res \<Rightarrow>
                   (case send wr rq res of
                      Inl f \<Rightarrow> Crashed f
                    | Inr (ok, res', ws) \<Rightarrow> ErrorSent ok res' ws))
            else
              (case onRequestCallback of
                 None \<Rightarrow> NoCallback
               | Some cb \<Rightarrow> Dispatched (cb rq newResponse))))"

subsection \<open>A sequence of \<open>Response::header\<close> calls\<close>

text \<open>The calls \<open>res->header(k1, v1); ...; res->header(kn, vn)\<close>, in this order.\<close>

definition set_headers :: "Response \<Rightarrow> (string \<times> string) list \<Rightarrow> Response" where
  "set_headers res kvs = foldl (\<lambda>r kv. header r (fst kv) (snd kv)) res kvs"

subsection \<open>Constants used to state results\<close>

text \<open>A socket that takes every buffer whole: \<open>write\<close> returns the number of bytes.\<close>

definition write_ok :: "string \<Rightarrow> int" where
  "write_ok buffer = int (length buffer)"

text \<open>The page that \<open>errorPage\<close> renders for status 400 (lemma \<open>errorPage_400\<close> below).\<close>

definition errorBody400 :: string where
  "errorBody400 = ''<!doctype html><html lang='' @ [DQUOTE] @ ''en'' @ [DQUOTE]
      @ ''><head><title>Error</title></head><body><h1>Error 400</h1><hr><p>Bad Request</p></body></html>''"


text \<open>A string that \<open>strtolower\<close> leaves as it is, and a map whose keys all are such.\<close>

definition is_lower :: "string \<Rightarrow> bool" where
  "is_lower s = (strtolower s = s)"

definition lower_keys :: "strmap \<Rightarrow> bool" where
  "lower_keys m = (\<forall>k\<in>fst ` set m. is_lower k)"

section \<open>The parser, one byte at a time\<close>

lemma parse_loop_append: "parse_loop p (xs @ ys) = parse_loop (parse_loop p xs) ys"
  by (induction xs arbitrary: p) simp_all

lemma parse_char_METHOD:
  "state p = PARSER_STATE_METHOD \<Longrightarrow> parse_char p c =
     (if c = CHR '' '' then
        p\<lparr>req := (req p)\<lparr>method := tmp p\<rparr>, state := PARSER_STATE_URL, tmp := []\<rparr>
      else p\<lparr>tmp := tmp p @ [c]\<rparr>)"
  by (simp add: parse_char_def)

lemma parse_char_URL:
  "state p = PARSER_STATE_URL \<Longrightarrow> parse_char p c =
     (if c = CHR '' '' \<or> c = CHR ''?'' then
        p\<lparr>req := (req p)\<lparr>url := tmp p\<rparr>,
          state := (if c = CHR ''?'' then PARSER_STATE_URL_QS else PARSER_STATE_PROTOCOL),
          tmp := []\<rparr>
      else if xss_char c then p
      else p\<lparr>tmp := tmp p @ [c]\<rparr>)"
  by (simp add: parse_char_def)

lemma parse_char_URL_QS:
  "state p = PARSER_STATE_URL_QS \<Longrightarrow> parse_char p c =
     (if c = CHR '' '' then
        p\<lparr>req := (req p)\<lparr>queryString := tmp p\<rparr>, state := PARSER_STATE_PROTOCOL, tmp := []\<rparr>
      else if xss_char c then p
      else p\<lparr>tmp := tmp p @ [c]\<rparr>)"
  by (simp add: parse_char_def)

lemma parse_char_PROTOCOL:
  "state p = PARSER_STATE_PROTOCOL \<Longrightarrow> parse_char p c =
     (if c = CHR ''/'' then
        p\<lparr>req := (if tmp p \<noteq> ''HTTP'' then (req p)\<lparr>hasError := True\<rparr> else req p),
          state := PARSER_STATE_MAJOR, tmp := []\<rparr>
      else p\<lparr>tmp := tmp p @ [c]\<rparr>)"
  by (simp add: parse_char_def)

lemma parse_char_MAJOR:
  "state p = PARSER_STATE_MAJOR \<Longrightarrow> parse_char p c =
     (if isdigit c then p\<lparr>req := (req p)\<lparr>httpMajorVersion := digit_value c\<rparr>\<rparr>
      else if c = CHR ''.'' then p\<lparr>state := PARSER_STATE_MINOR\<rparr>
      else p)"
  by (simp add: parse_char_def)

lemma parse_char_MINOR:
  "state p = PARSER_STATE_MINOR \<Longrightarrow> parse_char p c =
     (let p1 = (if isdigit c then p\<lparr>req := (req p)\<lparr>httpMinorVersion := digit_value c\<rparr>\<rparr> else p)
      in if c = LF then p1\<lparr>state := PARSER_STATE_HEADERS\<rparr> else p1)"
  by (simp add: parse_char_def)

lemma parse_char_HEADERS:
  "state p = PARSER_STATE_HEADERS \<Longrightarrow> parse_char p c = parse_headers_char p c"
  by (simp add: parse_char_def)

lemmas parse_char_cases =
  parse_char_METHOD parse_char_URL parse_char_URL_QS parse_char_PROTOCOL
  parse_char_MAJOR parse_char_MINOR parse_char_HEADERS

lemma headers_char_frame:
  "state (parse_headers_char p c) = PARSER_STATE_HEADERS \<longleftrightarrow> state p = PARSER_STATE_HEADERS"
  "state (parse_headers_char p c) = state p"
  "hasError (req (parse_headers_char p c)) = hasError (req p)"
  "method (req (parse_headers_char p c)) = method (req p)"
  "url (req (parse_headers_char p c)) = url (req p)"
  "queryString (req (parse_headers_char p c)) = queryString (req p)"
  "httpMajorVersion (req (parse_headers_char p c)) = httpMajorVersion (req p)"
  "httpMinorVersion (req (parse_headers_char p c)) = httpMinorVersion (req p)"
  by (simp_all add: parse_headers_char_def Let_def split: prod.splits)

lemma method_token_loop:
  "state p = PARSER_STATE_METHOD \<Longrightarrow> CHR '' '' \<notin> set buf \<Longrightarrow>
   parse_loop p buf = p\<lparr>tmp := tmp p @ buf\<rparr>"
  by (induction buf arbitrary: p) (auto simp: parse_char_METHOD)

lemma url_token_loop:
  "state p = PARSER_STATE_URL \<Longrightarrow> CHR '' '' \<notin> set buf \<Longrightarrow> CHR ''?'' \<notin> set buf \<Longrightarrow>
   parse_loop p buf = p\<lparr>tmp := tmp p @ filter (\<lambda>c. \<not> xss_char c) buf\<rparr>"
  by (induction buf arbitrary: p) (auto simp: parse_char_URL)

lemma qs_token_loop:
  "state p = PARSER_STATE_URL_QS \<Longrightarrow> CHR '' '' \<notin> set buf \<Longrightarrow>
   parse_loop p buf = p\<lparr>tmp := tmp p @ filter (\<lambda>c. \<not> xss_char c) buf\<rparr>"
  by (induction buf arbitrary: p) (auto simp: parse_char_URL_QS)

lemma protocol_token_loop:
  "state p = PARSER_STATE_PROTOCOL \<Longrightarrow> CHR ''/'' \<notin> set buf \<Longrightarrow>
   parse_loop p buf = p\<lparr>tmp := tmp p @ buf\<rparr>"
  by (induction buf arbitrary: p) (auto simp: parse_char_PROTOCOL)


lemma parse_snd: "snd (httpRequestParse rq buf) =
  (let r = req (parse_loop (parser_init rq) buf)
   in if httpMajorVersion r \<noteq> 1 then r\<lparr>hasError := True\<rparr> else r)"
  by (simp add: httpRequestParse_def Let_def)

lemma parse_fields:
  "method (snd (httpRequestParse rq buf)) = method (req (parse_loop (parser_init rq) buf))"
  "url (snd (httpRequestParse rq buf)) = url (req (parse_loop (parser_init rq) buf))"
  "queryString (snd (httpRequestParse rq buf)) = queryString (req (parse_loop (parser_init rq) buf))"
  "httpMajorVersion (snd (httpRequestParse rq buf)) = httpMajorVersion (req (parse_loop (parser_init rq) buf))"
  "httpMinorVersion (snd (httpRequestParse rq buf)) = httpMinorVersion (req (parse_loop (parser_init rq) buf))"
  "req_headers (snd (httpRequestParse rq buf)) = req_headers (req (parse_loop (parser_init rq) buf))"
  by (simp_all add: parse_snd Let_def)

lemma parser_init_simps:
  "req (parser_init rq) = rq" "tmp (parser_init rq) = []"
  "state (parser_init rq) = PARSER_STATE_METHOD" "isKey (parser_init rq) = True"
  by (simp_all add: parser_init_def)

lemma step_assigns:
  "method (req (parse_char p c)) =
     (if state p = PARSER_STATE_METHOD \<and> c = CHR '' '' then tmp p else method (req p))"
  "url (req (parse_char p c)) =
     (if state p = PARSER_STATE_URL \<and> (c = CHR '' '' \<or> c = CHR ''?'') then tmp p else url (req p))"
  "queryString (req (parse_char p c)) =
     (if state p = PARSER_STATE_URL_QS \<and> c = CHR '' '' then tmp p else queryString (req p))"
  by (cases "state p"; simp add: parse_char_cases headers_char_frame Let_def)+

section \<open>Version digits\<close>






section \<open>The filter on path and query string\<close>

lemma xss_step:
  assumes "\<forall>c\<in>set (url (req p)). \<not> xss_char c"
    and "\<forall>c\<in>set (queryString (req p)). \<not> xss_char c"
    and "state p = PARSER_STATE_URL \<or> state p = PARSER_STATE_URL_QS \<longrightarrow> (\<forall>c\<in>set (tmp p). \<not> xss_char c)"
  shows "(\<forall>c\<in>set (url (req (parse_char p x))). \<not> xss_char c)
       \<and> (\<forall>c\<in>set (queryString (req (parse_char p x))). \<not> xss_char c)
       \<and> (state (parse_char p x) = PARSER_STATE_URL \<or> state (parse_char p x) = PARSER_STATE_URL_QS
            \<longrightarrow> (\<forall>c\<in>set (tmp (parse_char p x)). \<not> xss_char c))"
proof (cases "state p")
  case PARSER_STATE_METHOD
  then show ?thesis using assms by (simp add: parse_char_METHOD)
next
  case PARSER_STATE_URL
  then show ?thesis using assms by (simp add: parse_char_URL)
next
  case PARSER_STATE_URL_QS
  then show ?thesis using assms by (simp add: parse_char_URL_QS)
next
  case PARSER_STATE_PROTOCOL
  then show ?thesis using assms by (simp add: parse_char_PROTOCOL)
next
  case PARSER_STATE_MAJOR
  then show ?thesis using assms by (simp add: parse_char_MAJOR)
next
  case PARSER_STATE_MINOR
  then show ?thesis using assms by (simp add: parse_char_MINOR Let_def)
next
  case PARSER_STATE_HEADERS
  then show ?thesis using assms by (simp add: parse_char_HEADERS headers_char_frame)
qed


lemma xss_loop:
  assumes "\<forall>c\<in>set (url (req p)). \<not> xss_char c"
    and "\<forall>c\<in>set (queryString (req p)). \<not> xss_char c"
    and "state p = PARSER_STATE_URL \<or> state p = PARSER_STATE_URL_QS \<longrightarrow> (\<forall>c\<in>set (tmp p). \<not> xss_char c)"
  shows "(\<forall>c\<in>set (url (req (parse_loop p buf))). \<not> xss_char c)
       \<and> (\<forall>c\<in>set (queryString (req (parse_loop p buf))). \<not> xss_char c)"
  using assms
proof (induction buf arbitrary: p)
  case Nil
  then show ?case by simp
next
  case (Cons x buf)
  have "(\<forall>c\<in>set (url (req (parse_loop (parse_char p x) buf))). \<not> xss_char c)
       \<and> (\<forall>c\<in>set (queryString (req (parse_loop (parse_char p x) buf))). \<not> xss_char c)"
    using xss_step [OF Cons.prems, of x] by (intro Cons.IH) simp_all
  then show ?case by simp
qed

lemma xss_free_iff:
  "(set s \<inter> {CHR ''<'', CHR ''>'', DQUOTE, SQUOTE} = {}) = (\<forall>c\<in>set s. \<not> xss_char c)"
  unfolding xss_char_def by blast

lemma xss_parse:
  assumes "set (url r) \<inter> {CHR ''<'', CHR ''>'', DQUOTE, SQUOTE} = {}"
    and "set (queryString r) \<inter> {CHR ''<'', CHR ''>'', DQUOTE, SQUOTE} = {}"
  shows "set (url (snd (httpRequestParse r buf))) \<inter> {CHR ''<'', CHR ''>'', DQUOTE, SQUOTE} = {}
      \<and> set (queryString (snd (httpRequestParse r buf))) \<inter> {CHR ''<'', CHR ''>'', DQUOTE, SQUOTE} = {}"
proof -
  have "(\<forall>c\<in>set (url (req (parse_loop (parser_init r) buf))). \<not> xss_char c)
       \<and> (\<forall>c\<in>set (queryString (req (parse_loop (parser_init r) buf))). \<not> xss_char c)"
    using assms unfolding xss_free_iff
    by (intro xss_loop) (simp_all add: parser_init_simps)
  then show ?thesis
    unfolding xss_free_iff parse_fields .
qed

section \<open>The error flag and the error response\<close>

lemma hasError_step: "hasError (req p) \<Longrightarrow> hasError (req (parse_char p c))"
  by (cases "state p") (auto simp: parse_char_cases headers_char_frame Let_def)

lemma hasError_loop: "hasError (req p) \<Longrightarrow> hasError (req (parse_loop p buf))"
  by (induction buf arbitrary: p) (simp_all add: hasError_step)

lemma hasError_parse:
  "hasError (snd (httpRequestParse rq buf)) =
     (hasError (req (parse_loop (parser_init rq) buf))
      \<or> httpMajorVersion (req (parse_loop (parser_init rq) buf)) \<noteq> 1)"
  by (simp add: parse_snd Let_def)

lemma bad_protocol_sets_error:
  assumes "state (parse_loop (parser_init rq) pre) = PARSER_STATE_PROTOCOL"
    and "tmp (parse_loop (parser_init rq) pre) \<noteq> ''HTTP''"
  shows "hasError (snd (httpRequestParse rq (pre @ CHR ''/'' # rest)))"
proof -
  have "hasError (req (parse_char (parse_loop (parser_init rq) pre) (CHR ''/'')))"
    using assms by (simp add: parse_char_PROTOCOL)
  then have "hasError (req (parse_loop (parser_init rq) (pre @ CHR ''/'' # rest)))"
    by (simp add: parse_loop_append hasError_loop)
  then show ?thesis by (simp add: hasError_parse)
qed

lemma to_string_400: "to_string 400 = ''400''"
  by code_simp

lemma to_string_nat_124: "to_string_nat 124 = ''124''"
  by code_simp

lemma status_400: "httpStatusMessage 400 = Some ''Bad Request''"
  by code_simp

lemma errorPage_400:
  "errorPage (newResponse\<lparr>statusCode := 400\<rparr>) =
     Inr \<lparr>statusCode = 400,
          headers = [(''Cache-Control'', ''no-cache, no-store, must-revalidate''),
                     (''Content-Type'', ''text/html'')],
          body = errorBody400\<rparr>"
  by code_simp

lemma fst_parse: "fst (httpRequestParse rq buf) = True"
  by (simp add: httpRequestParse_def Let_def)

lemma send_400:
  "send wr rq
     \<lparr>statusCode = 400,
        headers = [(''Cache-Control'', ''no-cache, no-store, must-revalidate''),
                   (''Content-Type'', ''text/html'')],
        body = errorBody400\<rparr> =
   (let B = errorBody400;
        R = \<lparr>statusCode = 400,
          headers = [(''Cache-Control'', ''no-cache, no-store, must-revalidate''),
                     (''Conection'', ''close''), (''Content-Length'', ''124''),
                     (''Content-Type'', ''text/html'')],
          body = B\<rparr>;
        head = ''HTTP/1.'' @ [if httpMinorVersion rq = 0 then CHR ''0'' else CHR ''1'']
          @ '' 400 Bad Request'' @ CRLF
          @ ''Cache-Control: no-cache, no-store, must-revalidate'' @ CRLF
          @ ''Conection: close'' @ CRLF
          @ ''Content-Length: 124'' @ CRLF
          @ ''Content-Type: text/html'' @ CRLF @ CRLF
    in if wr head < 0 then Inr (False, R, [head])
       else if wr B < 0 then Inr (False, R, [head, B])
       else Inr (True, R, [head, B]))"
proof -
  have len: "length errorBody400 = 124"
    by (simp add: errorBody400_def)
  show ?thesis
    by (simp add: send_def Let_def status_400 to_string_400 to_string_nat_124 len header_line_def)
qed

lemma handler_error_path:
  assumes "0 < recvLen" and "hasError (snd (httpRequestParse newRequest (take (nat recvLen) buffer)))"
  shows "serverRequestHandler cb wr recvLen buffer =
     (case send wr (snd (httpRequestParse newRequest (take (nat recvLen) buffer)))
        \<lparr>statusCode = 400,
        headers = [(''Cache-Control'', ''no-cache, no-store, must-revalidate''),
                   (''Content-Type'', ''text/html'')],
        body = errorBody400\<rparr> of Inl f \<Rightarrow> Crashed f | Inr (ok, res', ws) \<Rightarrow> ErrorSent ok res' ws)"
  using assms
  by (simp add: serverRequestHandler_def errorPage_400 split_beta fst_parse)

section \<open>Header keys\<close>

lemma tolower_char_range:
  "tolower_char c =
     (if 65 \<le> (of_char c :: nat) \<and> (of_char c :: nat) \<le> 90 then char_of (of_char c + (32::nat)) else c)"
  by (simp add: tolower_char_def less_eq_char_def)

lemma tolower_char_idem: "tolower_char (tolower_char c) = tolower_char c"
  by (simp add: tolower_char_range)

lemma strtolower_idem: "strtolower (strtolower s) = strtolower s"
  by (simp add: strtolower_def tolower_char_idem)

lemma strtolower_append: "strtolower (s @ t) = strtolower s @ strtolower t"
  by (simp add: strtolower_def)

lemma keys_map_assign: "fst ` set (map_assign m k v) = insert k (fst ` set m)"
  by (induction m) (force+)

lemma keys_map_index: "fst ` set (fst (map_index m k)) = insert k (fst ` set m)"
proof (cases "map_of m k")
  case None
  then show ?thesis by (simp add: map_index_def keys_map_assign)
next
  case (Some v)
  then have "k \<in> fst ` set m"
    by (force dest: map_of_SomeD)
  with Some show ?thesis by (auto simp: map_index_def)
qed

lemma headers_frame_other:
  "state p \<noteq> PARSER_STATE_HEADERS \<Longrightarrow>
   req_headers (req (parse_char p c)) = req_headers (req p) \<and> isKey (parse_char p c) = isKey p"
  by (cases "state p") (simp_all add: parse_char_cases Let_def)

lemma is_lower_strtolower: "is_lower (strtolower s)"
  by (simp add: is_lower_def strtolower_idem)

lemma lower_keys_assign: "lower_keys m \<Longrightarrow> is_lower k \<Longrightarrow> lower_keys (map_assign m k v)"
  by (simp add: lower_keys_def keys_map_assign)

lemma lower_keys_index: "lower_keys m \<Longrightarrow> is_lower k \<Longrightarrow> lower_keys (fst (map_index m k))"
  by (simp add: lower_keys_def keys_map_index)

lemma headers_char_LF:
  "parse_headers_char p LF = p\<lparr>isKey := True, tmp := []\<rparr>"
  by (simp add: parse_headers_char_def)

lemma headers_char_colon:
  "isKey p \<Longrightarrow> parse_headers_char p (CHR '':'') =
     p\<lparr>tmp := strtolower (tmp p),
       req := (req p)\<lparr>req_headers := map_assign (req_headers (req p)) (strtolower (tmp p)) []\<rparr>,
       isKey := False\<rparr>"
  by (simp add: parse_headers_char_def Let_def)

lemma headers_char_key:
  "isKey p \<Longrightarrow> c \<noteq> LF \<Longrightarrow> c \<noteq> CHR '':'' \<Longrightarrow> parse_headers_char p c = p\<lparr>tmp := tmp p @ [c]\<rparr>"
  by (simp add: parse_headers_char_def)

lemma headers_char_value:
  "\<not> isKey p \<Longrightarrow> c \<noteq> LF \<Longrightarrow>
   parse_headers_char p c =
     (if c = CR then p
      else if length (snd (map_index (req_headers (req p)) (tmp p))) = 0 \<and> c = CHR '' ''
      then p\<lparr>req := (req p)\<lparr>req_headers := fst (map_index (req_headers (req p)) (tmp p))\<rparr>\<rparr>
      else p\<lparr>req := (req p)\<lparr>req_headers :=
             map_assign (fst (map_index (fst (map_index (req_headers (req p)) (tmp p))) (tmp p))) (tmp p)
               (snd (map_index (fst (map_index (req_headers (req p)) (tmp p))) (tmp p)) @ [c])\<rparr>\<rparr>)"
  by (simp add: parse_headers_char_def split_beta)

lemma lower_headers_step:
  assumes "lower_keys (req_headers (req p))"
    and "\<not> isKey p \<longrightarrow> is_lower (tmp p)"
  shows "lower_keys (req_headers (req (parse_headers_char p c)))
       \<and> (\<not> isKey (parse_headers_char p c) \<longrightarrow> is_lower (tmp (parse_headers_char p c)))"
proof (cases "c = LF")
  case True
  then show ?thesis using assms(1) by (simp add: headers_char_LF)
next
  case nl: False
  show ?thesis
  proof (cases "isKey p")
    case True
    show ?thesis
    proof (cases "c = CHR '':''")
      case True
      with \<open>isKey p\<close> show ?thesis
        using lower_keys_assign [OF assms(1) is_lower_strtolower, of "tmp p" "[]"]
        by (simp add: headers_char_colon is_lower_strtolower)
    next
      case False
      with \<open>isKey p\<close> nl show ?thesis using assms(1) by (simp add: headers_char_key)
    qed
  next
    case False
    then have t: "is_lower (tmp p)" using assms(2) by simp
    have l1: "lower_keys (fst (map_index (req_headers (req p)) (tmp p)))"
      by (rule lower_keys_index [OF assms(1) t])
    have l2: "lower_keys (fst (map_index (fst (map_index (req_headers (req p)) (tmp p))) (tmp p)))"
      by (rule lower_keys_index [OF l1 t])
    have l3: "lower_keys (map_assign (fst (map_index (fst (map_index (req_headers (req p)) (tmp p))) (tmp p))) (tmp p) v)" for v
      by (rule lower_keys_assign [OF l2 t])
    show ?thesis
      using False nl t l1 l3 assms(1) by (simp add: headers_char_value)
  qed
qed

lemma lower_step:
  assumes "lower_keys (req_headers (req p))"
    and "\<not> isKey p \<longrightarrow> is_lower (tmp p)"
    and "state p \<noteq> PARSER_STATE_HEADERS \<longrightarrow> isKey p"
  shows "lower_keys (req_headers (req (parse_char p c)))
       \<and> (\<not> isKey (parse_char p c) \<longrightarrow> is_lower (tmp (parse_char p c)))
       \<and> (state (parse_char p c) \<noteq> PARSER_STATE_HEADERS \<longrightarrow> isKey (parse_char p c))"
proof (cases "state p = PARSER_STATE_HEADERS")
  case True
  then show ?thesis
    using lower_headers_step [OF assms(1) assms(2), of c]
    by (simp add: parse_char_HEADERS headers_char_frame)
next
  case False
  then have k: "isKey p" using assms(3) by simp
  from headers_frame_other [OF False, of c] k assms(1) show ?thesis by simp
qed

lemma lower_loop:
  assumes "lower_keys (req_headers (req p))"
    and "\<not> isKey p \<longrightarrow> is_lower (tmp p)"
    and "state p \<noteq> PARSER_STATE_HEADERS \<longrightarrow> isKey p"
  shows "lower_keys (req_headers (req (parse_loop p buf)))"
  using assms
proof (induction buf arbitrary: p)
  case Nil
  then show ?case by simp
next
  case (Cons c buf)
  note s = lower_step [OF Cons.prems, of c]
  have "lower_keys (req_headers (req (parse_loop (parse_char p c) buf)))"
    by (rule Cons.IH [OF conjunct1 [OF s] conjunct1 [OF conjunct2 [OF s]] conjunct2 [OF conjunct2 [OF s]]])
  then show ?case by simp
qed

lemma lower_parse:
  assumes "lower_keys (req_headers rq)"
  shows "lower_keys (req_headers (snd (httpRequestParse rq buf)))"
  unfolding parse_fields
  by (rule lower_loop) (simp_all add: parser_init_simps assms)

lemma key_loop:
  "state p = PARSER_STATE_HEADERS \<Longrightarrow> isKey p \<Longrightarrow> CHR '':'' \<notin> set K \<Longrightarrow> LF \<notin> set K \<Longrightarrow>
   parse_loop p K = p\<lparr>tmp := tmp p @ K\<rparr>"
proof (induction K arbitrary: p)
  case Nil
  then show ?case by simp
next
  case (Cons c K)
  then have c: "c \<noteq> LF" "c \<noteq> CHR '':''" by auto
  have step: "parse_char p c = p\<lparr>tmp := tmp p @ [c]\<rparr>"
    using Cons.prems(1,2) c by (simp add: parse_char_HEADERS headers_char_key)
  have "parse_loop (p\<lparr>tmp := tmp p @ [c]\<rparr>) K = (p\<lparr>tmp := tmp p @ [c]\<rparr>)\<lparr>tmp := tmp (p\<lparr>tmp := tmp p @ [c]\<rparr>) @ K\<rparr>"
    using Cons.prems by (intro Cons.IH) simp_all
  then show ?case by (simp add: step)
qed

lemma key_colon:
  assumes "state p = PARSER_STATE_HEADERS" and "isKey p"
    and "CHR '':'' \<notin> set K" and "LF \<notin> set K"
  shows "parse_loop p (K @ CHR '':'' # post) =
     parse_loop (p\<lparr>tmp := strtolower (tmp p @ K),
                   req := (req p)\<lparr>req_headers := map_assign (req_headers (req p)) (strtolower (tmp p @ K)) []\<rparr>,
                   isKey := False\<rparr>) post"
proof -
  have "parse_loop p (K @ CHR '':'' # post) = parse_loop (parse_char (parse_loop p K) (CHR '':'')) post"
    by (simp add: parse_loop_append)
  also have "parse_loop p K = p\<lparr>tmp := tmp p @ K\<rparr>"
    by (rule key_loop [OF assms])
  also have "parse_char (p\<lparr>tmp := tmp p @ K\<rparr>) (CHR '':'') =
      p\<lparr>tmp := strtolower (tmp p @ K),
                   req := (req p)\<lparr>req_headers := map_assign (req_headers (req p)) (strtolower (tmp p @ K)) []\<rparr>,
                   isKey := False\<rparr>"
    using assms(1,2) by (simp add: parse_char_HEADERS headers_char_colon)
  finally show ?thesis .
qed

lemma key_case_insensitive:
  assumes "state (parse_loop (parser_init rq) pre) = PARSER_STATE_HEADERS"
    and "isKey (parse_loop (parser_init rq) pre)"
    and "strtolower K1 = strtolower K2"
    and "CHR '':'' \<notin> set K1" and "LF \<notin> set K1"
    and "CHR '':'' \<notin> set K2" and "LF \<notin> set K2"
  shows "httpRequestParse rq (pre @ K1 @ CHR '':'' # post) = httpRequestParse rq (pre @ K2 @ CHR '':'' # post)"
proof -
  have e: "strtolower (t @ K1) = strtolower (t @ K2)" for t
    by (simp add: strtolower_append assms(3))
  have "parse_loop (parser_init rq) (pre @ K1 @ CHR '':'' # post)
      = parse_loop (parser_init rq) (pre @ K2 @ CHR '':'' # post)"
    unfolding parse_loop_append [of _ pre]
      key_colon [OF assms(1) assms(2) assms(4) assms(5)]
      key_colon [OF assms(1) assms(2) assms(6) assms(7)] e ..
  then show ?thesis by (simp add: httpRequestParse_def)
qed

section \<open>The headers map of a response\<close>

lemma map_of_map_assign: "map_of (map_assign m k v) = (map_of m)(k \<mapsto> v)"
  by (induction m) (auto simp: fun_eq_iff)

lemma sorted_map_assign:
  "sorted_wrt (<) (map fst m) \<Longrightarrow> sorted_wrt (<) (map fst (map_assign m k v))"
proof (induction m)
  case Nil
  then show ?case by simp
next
  case (Cons a m)
  obtain k' v' where a: "a = (k', v')" by (cases a)
  show ?case
    using Cons keys_map_assign [of m k v] unfolding a
    by (auto simp: less_imp_le)
qed

lemma set_headers_fields:
  "statusCode (set_headers res kvs) = statusCode res"
  "body (set_headers res kvs) = body res"
  "headers (set_headers res kvs) =
     foldl (\<lambda>m kv. map_assign m (fst kv) (snd kv)) (headers res) kvs"
  unfolding set_headers_def
  by (induction kvs arbitrary: res) (simp_all add: header_def)

lemma assign_all_sorted:
  "sorted_wrt (<) (map fst m) \<Longrightarrow>
   sorted_wrt (<) (map fst (foldl (\<lambda>m kv. map_assign m (fst kv) (snd kv)) m kvs))"
  by (induction kvs arbitrary: m) (simp_all add: sorted_map_assign)

lemma assign_all_map_of:
  "map_of (foldl (\<lambda>m kv. map_assign m (fst kv) (snd kv)) m kvs) = map_of (rev kvs @ m)"
proof (induction kvs arbitrary: m)
  case Nil
  then show ?case by simp
next
  case (Cons kv kvs)
  have "map_of (rev kvs @ map_assign m (fst kv) (snd kv)) = map_of (rev kvs @ kv # m)"
    by (cases kv) (simp add: map_of_append map_of_map_assign)
  with Cons show ?case by simp
qed

lemma assign_all_keys:
  "fst ` set (foldl (\<lambda>m kv. map_assign m (fst kv) (snd kv)) m kvs) = fst ` set m \<union> fst ` set kvs"
  by (induction kvs arbitrary: m) (auto simp: keys_map_assign)

lemma distinct_keys_repr:
  assumes "distinct (map fst m)"
  shows "map (\<lambda>k. (k, the (map_of m k))) (map fst m) = m"
proof -
  have "(fst h, the (map_of m (fst h))) = h" if "h \<in> set m" for h
  proof -
    have "(fst h, snd h) \<in> set m" using that by simp
    then have "map_of m (fst h) = Some (snd h)"
      using assms by (simp only: map_of_eq_Some_iff)
    then show ?thesis by simp
  qed
  then have "map (\<lambda>h. (fst h, the (map_of m (fst h)))) m = m"
    by (intro map_idI)
  then show ?thesis by (simp add: comp_def)
qed

lemma sorted_keys_repr:
  assumes "sorted_wrt (<) (map fst m)"
  shows "m = map (\<lambda>k. (k, the (map_of m k))) (sorted_list_of_set (fst ` set m))"
proof -
  have sd: "sorted (map fst m)" "distinct (map fst m)"
    using assms by (simp_all add: strict_sorted_iff)
  have "sorted_list_of_set (set (map fst m)) = map fst m"
    by (rule sorted_list_of_set.idem_if_sorted_distinct [OF sd])
  then show ?thesis
    using distinct_keys_repr [OF sd(2)] by simp
qed

lemma send_headers_after:
  "httpStatusMessage (statusCode res) = Some m \<Longrightarrow>
   \<exists>ok rest. send wr rq res =
     Inr (ok,
       res\<lparr>headers := foldl (\<lambda>m kv. map_assign m (fst kv) (snd kv)) (headers res)
                 [(''Content-Length'', to_string_nat (length (body res))), (''Conection'', ''close'')]\<rparr>,
       (''HTTP/1.'' @ [if httpMinorVersion rq = 0 then CHR ''0'' else CHR ''1''] @ '' ''
          @ to_string (statusCode res) @ '' '' @ m @ CRLF
          @ concat (map header_line
              (foldl (\<lambda>m kv. map_assign m (fst kv) (snd kv)) (headers res)
                 [(''Content-Length'', to_string_nat (length (body res))), (''Conection'', ''close'')]))
          @ CRLF) # rest)"
  by (auto simp: send_def Let_def)


lemma example_header_lines: "concat (map (\<lambda>k. header_line (k, the (map_of (rev ([(''Content-Type'', ''text/plain''), (''Server'', ''ExampleHTTPServer''),
         (''Cache-Control'', ''no-cache, no-store, must-revalidate'')] @ [(''Content-Length'', to_string_nat (length ([]::string))), (''Conection'', ''close'')])) k)))
                           (sorted_list_of_set (fst ` set ([(''Content-Type'', ''text/plain''), (''Server'', ''ExampleHTTPServer''),
         (''Cache-Control'', ''no-cache, no-store, must-revalidate'')] @ [(''Content-Length'', to_string_nat (length ([]::string))), (''Conection'', ''close'')])))) =
    ''Cache-Control: no-cache, no-store, must-revalidate'' @ CRLF
        @ ''Conection: close'' @ CRLF
        @ ''Content-Length: 0'' @ CRLF
        @ ''Content-Type: text/plain'' @ CRLF
        @ ''Server: ExampleHTTPServer'' @ CRLF"
  by code_simp



section \<open>What the path and the query string hold\<close>

lemma url_frame_step:
  "state p \<noteq> PARSER_STATE_METHOD \<Longrightarrow> state p \<noteq> PARSER_STATE_URL \<Longrightarrow>
   state (parse_char p c) \<noteq> PARSER_STATE_METHOD \<and> state (parse_char p c) \<noteq> PARSER_STATE_URL
   \<and> url (req (parse_char p c)) = url (req p)"
  by (cases "state p") (simp_all add: parse_char_cases headers_char_frame Let_def)

lemma url_frame:
  "state p \<noteq> PARSER_STATE_METHOD \<Longrightarrow> state p \<noteq> PARSER_STATE_URL \<Longrightarrow>
   url (req (parse_loop p buf)) = url (req p)"
proof (induction buf arbitrary: p)
  case Nil
  then show ?case by simp
next
  case (Cons c buf)
  note s = url_frame_step [OF Cons.prems, of c]
  have "url (req (parse_loop (parse_char p c) buf)) = url (req (parse_char p c))"
    by (rule Cons.IH [OF conjunct1 [OF s] conjunct1 [OF conjunct2 [OF s]]])
  then show ?case using s by simp
qed

lemma qs_frame_step:
  "state p \<noteq> PARSER_STATE_METHOD \<Longrightarrow> state p \<noteq> PARSER_STATE_URL \<Longrightarrow>
   state p \<noteq> PARSER_STATE_URL_QS \<Longrightarrow>
   state (parse_char p c) \<noteq> PARSER_STATE_METHOD \<and> state (parse_char p c) \<noteq> PARSER_STATE_URL
   \<and> state (parse_char p c) \<noteq> PARSER_STATE_URL_QS
   \<and> queryString (req (parse_char p c)) = queryString (req p)"
  by (cases "state p") (simp_all add: parse_char_cases headers_char_frame Let_def)

lemma qs_frame:
  "state p \<noteq> PARSER_STATE_METHOD \<Longrightarrow> state p \<noteq> PARSER_STATE_URL \<Longrightarrow>
   state p \<noteq> PARSER_STATE_URL_QS \<Longrightarrow>
   queryString (req (parse_loop p buf)) = queryString (req p)"
proof (induction buf arbitrary: p)
  case Nil
  then show ?case by simp
next
  case (Cons c buf)
  note s = qs_frame_step [OF Cons.prems, of c]
  have "queryString (req (parse_loop (parse_char p c) buf)) = queryString (req (parse_char p c))"
    by (rule Cons.IH [OF conjunct1 [OF s] conjunct1 [OF conjunct2 [OF s]]
          conjunct1 [OF conjunct2 [OF conjunct2 [OF s]]]])
  then show ?case using s by simp
qed

lemma xss_filter_eq:
  "filter (\<lambda>c. \<not> xss_char c) s = filter (\<lambda>c. c \<notin> {CHR ''<'', CHR ''>'', DQUOTE, SQUOTE}) s"
  by (rule filter_cong) (auto simp: xss_char_def)

lemma path_only_parse:
  assumes "CHR '' '' \<notin> set m" and "CHR '' '' \<notin> set u" and "CHR ''?'' \<notin> set u"
  shows "url (snd (httpRequestParse rq (m @ CHR '' '' # u @ CHR '' '' # rest)))
           = filter (\<lambda>c. c \<notin> {CHR ''<'', CHR ''>'', DQUOTE, SQUOTE}) u"
    and "queryString (snd (httpRequestParse rq (m @ CHR '' '' # u @ CHR '' '' # rest))) = queryString rq"
proof -
  define p1 where "p1 = parse_char (parse_loop (parser_init rq) m) (CHR '' '')"
  define p2 where "p2 = parse_char (parse_loop p1 u) (CHR '' '')"
  have p1: "p1 = \<lparr>req = rq\<lparr>method := m\<rparr>, tmp = [], state = PARSER_STATE_URL, isKey = True\<rparr>"
    unfolding p1_def using assms(1)
    by (simp add: method_token_loop parser_init_simps parse_char_METHOD parser_init_def)
  have p2: "p2 = \<lparr>req = rq\<lparr>method := m, url := filter (\<lambda>c. \<not> xss_char c) u\<rparr>, tmp = [],
                  state = PARSER_STATE_PROTOCOL, isKey = True\<rparr>"
    unfolding p2_def using assms(2,3)
    by (simp add: url_token_loop p1 parse_char_URL)
  have all: "parse_loop (parser_init rq) (m @ CHR '' '' # u @ CHR '' '' # rest) = parse_loop p2 rest"
    by (simp add: parse_loop_append p1_def p2_def)
  have s: "state p2 \<noteq> PARSER_STATE_METHOD" "state p2 \<noteq> PARSER_STATE_URL" "state p2 \<noteq> PARSER_STATE_URL_QS"
    by (simp_all add: p2)
  show "url (snd (httpRequestParse rq (m @ CHR '' '' # u @ CHR '' '' # rest)))
           = filter (\<lambda>c. c \<notin> {CHR ''<'', CHR ''>'', DQUOTE, SQUOTE}) u"
    unfolding parse_fields all url_frame [OF s(1,2)] xss_filter_eq [symmetric] by (simp add: p2)
  show "queryString (snd (httpRequestParse rq (m @ CHR '' '' # u @ CHR '' '' # rest))) = queryString rq"
    unfolding parse_fields all qs_frame [OF s] by (simp add: p2)
qed

lemma path_query_parse:
  assumes "CHR '' '' \<notin> set m" and "CHR '' '' \<notin> set u" and "CHR ''?'' \<notin> set u"
    and "CHR '' '' \<notin> set q"
  shows "url (snd (httpRequestParse rq (m @ CHR '' '' # u @ CHR ''?'' # q @ CHR '' '' # rest)))
           = filter (\<lambda>c. c \<notin> {CHR ''<'', CHR ''>'', DQUOTE, SQUOTE}) u"
    and "queryString (snd (httpRequestParse rq (m @ CHR '' '' # u @ CHR ''?'' # q @ CHR '' '' # rest)))
           = filter (\<lambda>c. c \<notin> {CHR ''<'', CHR ''>'', DQUOTE, SQUOTE}) q"
proof -
  define p1 where "p1 = parse_char (parse_loop (parser_init rq) m) (CHR '' '')"
  define p2 where "p2 = parse_char (parse_loop p1 u) (CHR ''?'')"
  define p3 where "p3 = parse_char (parse_loop p2 q) (CHR '' '')"
  have p1: "p1 = \<lparr>req = rq\<lparr>method := m\<rparr>, tmp = [], state = PARSER_STATE_URL, isKey = True\<rparr>"
    unfolding p1_def using assms(1)
    by (simp add: method_token_loop parser_init_simps parse_char_METHOD parser_init_def)
  have p2: "p2 = \<lparr>req = rq\<lparr>method := m, url := filter (\<lambda>c. \<not> xss_char c) u\<rparr>, tmp = [],
                  state = PARSER_STATE_URL_QS, isKey = True\<rparr>"
    unfolding p2_def using assms(2,3)
    by (simp add: url_token_loop p1 parse_char_URL)
  have p3: "p3 = \<lparr>req = rq\<lparr>method := m, url := filter (\<lambda>c. \<not> xss_char c) u,
                         queryString := filter (\<lambda>c. \<not> xss_char c) q\<rparr>, tmp = [],
                  state = PARSER_STATE_PROTOCOL, isKey = True\<rparr>"
    unfolding p3_def using assms(4)
    by (simp add: qs_token_loop p2 parse_char_URL_QS)
  have all: "parse_loop (parser_init rq) (m @ CHR '' '' # u @ CHR ''?'' # q @ CHR '' '' # rest) = parse_loop p3 rest"
    by (simp add: parse_loop_append p1_def p2_def p3_def)
  have s: "state p3 \<noteq> PARSER_STATE_METHOD" "state p3 \<noteq> PARSER_STATE_URL" "state p3 \<noteq> PARSER_STATE_URL_QS"
    by (simp_all add: p3)
  show "url (snd (httpRequestParse rq (m @ CHR '' '' # u @ CHR ''?'' # q @ CHR '' '' # rest)))
           = filter (\<lambda>c. c \<notin> {CHR ''<'', CHR ''>'', DQUOTE, SQUOTE}) u"
    unfolding parse_fields all url_frame [OF s(1,2)] xss_filter_eq [symmetric] by (simp add: p3)
  show "queryString (snd (httpRequestParse rq (m @ CHR '' '' # u @ CHR ''?'' # q @ CHR '' '' # rest)))
           = filter (\<lambda>c. c \<notin> {CHR ''<'', CHR ''>'', DQUOTE, SQUOTE}) q"
    unfolding parse_fields all qs_frame [OF s] xss_filter_eq [symmetric] by (simp add: p3)
qed

section \<open>Keys without upper-case letters\<close>

lemma tolower_char_fixed:
  "(tolower_char c = c) = (\<not> (CHR ''A'' \<le> c \<and> c \<le> CHR ''Z''))"
proof (cases "65 \<le> (of_char c :: nat) \<and> (of_char c :: nat) \<le> 90")
  case True
  have "char_of (of_char c + (32::nat)) \<noteq> c"
  proof
    assume "char_of (of_char c + (32::nat)) = c"
    then have "(of_char (char_of (of_char c + (32::nat)) :: char) :: nat) = of_char c"
      by simp
    then have "(of_char c + 32) mod 256 = (of_char c :: nat)"
      by (simp only: of_char_of)
    with True show False by simp
  qed
  with True show ?thesis
    by (simp add: tolower_char_range less_eq_char_def)
next
  case False
  then show ?thesis
    by (auto simp: tolower_char_range less_eq_char_def)
qed

lemma is_lower_iff:
  "is_lower k = list_all (\<lambda>c. \<not> (CHR ''A'' \<le> c \<and> c \<le> CHR ''Z'')) k"
  unfolding is_lower_def strtolower_def
  by (induction k) (simp_all add: tolower_char_fixed)

lemma lower_keys_iff:
  "lower_keys m = (\<forall>k\<in>fst ` set m. \<forall>c\<in>set k. \<not> (CHR ''A'' \<le> c \<and> c \<le> CHR ''Z''))"
  unfolding lower_keys_def is_lower_iff list_all_iff ..

lemma strtolower_explicit:
  "strtolower s =
     map (\<lambda>c. if CHR ''A'' \<le> c \<and> c \<le> CHR ''Z'' then char_of (of_char c + (32::nat)) else c) s"
  unfolding strtolower_def
  by (rule map_cong) (simp_all add: tolower_char_def)

lemma key_registered:
  assumes "state (parse_loop (parser_init rq) pre) = PARSER_STATE_HEADERS"
    and "isKey (parse_loop (parser_init rq) pre)"
    and "tmp (parse_loop (parser_init rq) pre) = []"
    and "CHR '':'' \<notin> set K" and "LF \<notin> set K"
  shows "req_headers (snd (httpRequestParse rq (pre @ K @ [CHR '':''])))
     = map_assign (req_headers (req (parse_loop (parser_init rq) pre)))
         (map (\<lambda>c. if CHR ''A'' \<le> c \<and> c \<le> CHR ''Z'' then char_of (of_char c + (32::nat)) else c) K) []"
proof -
  have "parse_loop (parser_init rq) (pre @ K @ [CHR '':''])
      = parse_loop (parse_loop (parser_init rq) pre) (K @ CHR '':'' # [])"
    by (simp add: parse_loop_append)
  then show ?thesis
    unfolding parse_fields key_colon [OF assms(1,2,4,5)] strtolower_explicit [symmetric]
    by (simp add: assms(3))
qed

lemma all_keys_iff:
  "list_all (list_all P) (map fst m) = (\<forall>k\<in>fst ` set m. \<forall>c\<in>set k. P c)"
  by (simp add: list_all_iff)


section \<open>The status table\<close>

lemma status_known:
  "(httpStatusMessage c = None) =
     (c \<notin> {200, 301, 302, 304, 307, 400, 401, 403, 404, 405, 411, 413, 414, 429,
            500, 502, 503, 504, 505})"
  by (simp add: httpStatusMessage_def msg_def)

section \<open>Claims\<close>

text \<open>
  C10. \<open>httpRequestParse\<close> assigns \<open>method\<close>, \<open>url\<close> and \<open>queryString\<close> only on the
  byte that ends the token: a step of the loop changes \<open>method\<close> only in state METHOD on a
  space, \<open>url\<close> only in state URL on a space or \<open>?\<close>, \<open>queryString\<close> only in state URL_QS
  on a space, and the value assigned is \<open>tmp\<close>. So a buffer that ends inside the method
  (no space at all), inside the path, or inside the query string leaves the field of the
  unfinished token (and the fields of the tokens after it) as it was; on a new request the
  buffer \<open>GET\<close> leaves \<open>method\<close> empty.
\<close>

theorem partial_token_keeps_field:
  "method (req (parse_char p c)) =
     (if state p = PARSER_STATE_METHOD \<and> c = CHR '' '' then tmp p else method (req p))
   \<and> url (req (parse_char p c)) =
     (if state p = PARSER_STATE_URL \<and> (c = CHR '' '' \<or> c = CHR ''?'') then tmp p else url (req p))
   \<and> queryString (req (parse_char p c)) =
     (if state p = PARSER_STATE_URL_QS \<and> c = CHR '' '' then tmp p else queryString (req p))
   \<and> (CHR '' '' \<notin> set m \<longrightarrow> method (snd (httpRequestParse rq m)) = method rq
        \<and> url (snd (httpRequestParse rq m)) = url rq
        \<and> queryString (snd (httpRequestParse rq m)) = queryString rq)
   \<and> (CHR '' '' \<notin> set m \<and> CHR '' '' \<notin> set u \<and> CHR ''?'' \<notin> set u \<longrightarrow>
        url (snd (httpRequestParse rq (m @ '' '' @ u))) = url rq
        \<and> queryString (snd (httpRequestParse rq (m @ '' '' @ u))) = queryString rq)
   \<and> (CHR '' '' \<notin> set m \<and> CHR '' '' \<notin> set u \<and> CHR ''?'' \<notin> set u \<and> CHR '' '' \<notin> set q \<longrightarrow>
        queryString (snd (httpRequestParse rq (m @ '' '' @ u @ ''?'' @ q))) = queryString rq)
   \<and> snd (httpRequestParse newRequest ''GET'') = newRequest\<lparr>hasError := True\<rparr>"
proof -
  have a: "CHR '' '' \<notin> set m \<Longrightarrow> req (parse_loop (parser_init rq) m) = rq" for m
    by (simp add: method_token_loop parser_init_simps)
  have b: "req (parse_loop (parser_init rq) (m @ CHR '' '' # u)) = rq\<lparr>method := m\<rparr>"
    if "CHR '' '' \<notin> set m" "CHR '' '' \<notin> set u" "CHR ''?'' \<notin> set u" for m u
    using that
    by (simp add: parse_loop_append method_token_loop parser_init_simps parse_char_METHOD
        url_token_loop)
  have c: "req (parse_loop (parser_init rq) (m @ CHR '' '' # u @ CHR ''?'' # q)) = rq\<lparr>method := m, url := filter (\<lambda>c. \<not> xss_char c) u\<rparr>"
    if "CHR '' '' \<notin> set m" "CHR '' '' \<notin> set u" "CHR ''?'' \<notin> set u" "CHR '' '' \<notin> set q" for m u q
    using that
    by (simp add: parse_loop_append method_token_loop parser_init_simps parse_char_METHOD
        url_token_loop parse_char_URL qs_token_loop)
  have d: "snd (httpRequestParse newRequest ''GET'') = newRequest\<lparr>hasError := True\<rparr>"
    by code_simp
  show ?thesis
    by (simp only: step_assigns parse_fields d) (simp add: a b c)
qed

theorem partial_token_keeps_field_witness:
  "CHR '' '' \<notin> set ''GET'' \<and> CHR '' '' \<notin> set ''/index'' \<and> CHR ''?'' \<notin> set ''/index'' \<and> CHR '' '' \<notin> set ''a=1''
   \<and> method (snd (httpRequestParse newRequest ''GET'')) = []
   \<and> url (snd (httpRequestParse newRequest ''GET /index'')) = []
   \<and> queryString (snd (httpRequestParse newRequest ''GET /index?a=1'')) = []"
  using partial_token_keeps_field [of _ _ "''GET''" newRequest "''/index''" "''a=1''"]
  by (simp add: newRequest_def)

text \<open>
  C5. Parsing the single buffer \<open>GET /x HTTP/1.1\r\nHost: a\r\n\r\n\<close> on a new request gives
  method \<open>GET\<close>, url \<open>/x\<close>, major version 1, minor version 1, the headers map with the
  one entry \<open>host\<close> \<open>\<mapsto>\<close> \<open>a\<close>, and no error; the query string stays empty and the parser
  returns \<open>true\<close>.
\<close>

theorem parse_valid_get_request:
  "httpRequestParse newRequest (''GET /x HTTP/1.1'' @ CRLF @ ''Host: a'' @ CRLF @ CRLF) =
     (True, \<lparr>hasError = False, method = ''GET'', url = ''/x'', queryString = [],
             httpMajorVersion = 1, httpMinorVersion = 1, req_headers = [(''host'', ''a'')]\<rparr>)"
  by code_simp

text \<open>
  C9. Whenever the status code has a reason phrase, \<open>Response::send\<close> writes a header
  block that starts with \<open>HTTP/1.0\<close> if the request's minor version is 0 and with
  \<open>HTTP/1.1\<close> for every other minor version, followed by a space, the status code, a
  space, the reason phrase and CRLF.
\<close>

theorem send_status_line_version:
  "httpStatusMessage (statusCode res) = Some m \<Longrightarrow>
   \<exists>ok res' rest. send wr rq res = Inr (ok, res',
      ((if httpMinorVersion rq = 0 then ''HTTP/1.0'' else ''HTTP/1.1'') @ '' ''
        @ to_string (statusCode res) @ '' '' @ m @ CRLF
        @ concat (map header_line (headers res')) @ CRLF) # rest)"
  by (auto simp: send_def Let_def)

theorem send_status_line_version_witness:
  "httpStatusMessage (statusCode (newResponse\<lparr>statusCode := 404\<rparr>)) = Some ''Not Found'' \<and>
   (\<exists>ok res' rest.
      send write_ok (newRequest\<lparr>httpMinorVersion := 9\<rparr>)
        (newResponse\<lparr>statusCode := 404\<rparr>) =
      Inr (ok, res',
        (''HTTP/1.1 404 Not Found'' @ CRLF @ concat (map header_line (headers res')) @ CRLF)
        # rest))"
proof -
  have h: "httpStatusMessage (statusCode (newResponse\<lparr>statusCode := 404\<rparr>)) = Some ''Not Found''"
    by code_simp
  have t: "to_string 404 = ''404''"
    by code_simp
  show ?thesis
    using h send_status_line_version
      [OF h, of write_ok "newRequest\<lparr>httpMinorVersion := 9\<rparr>"]
    by (simp add: t)
qed

text \<open>
  C1, at the input where the code departs from it. \<open>Response::send\<close> sets
  \<open>Content-Length\<close> to the decimal length of the body, but the second key it writes is
  spelled \<open>Conection\<close>. Sending a new response produces a header block with the lines
  \<open>Conection: close\<close> and \<open>Content-Length: 0\<close> and the headers map has no key
  \<open>Connection\<close>; a response on which the application set \<open>Connection: keep-alive\<close> is
  sent with that line unchanged.
\<close>

theorem send_writes_misspelt_connection_key:
  "send write_ok newRequest newResponse =
     Inr (True,
          \<lparr>statusCode = 200,
             headers = [(''Conection'', ''close''), (''Content-Length'', ''0'')],
             body = []\<rparr>,
          [''HTTP/1.0 200 Ok'' @ CRLF @ ''Conection: close'' @ CRLF
             @ ''Content-Length: 0'' @ CRLF @ CRLF,
           []])
   \<and> map_of (headers (fst (snd (projr (send write_ok newRequest newResponse)))))
         ''Connection'' = None
   \<and> send write_ok newRequest (header newResponse ''Connection'' ''keep-alive'') =
     Inr (True,
          \<lparr>statusCode = 200,
             headers = [(''Conection'', ''close''), (''Connection'', ''keep-alive''),
                        (''Content-Length'', ''0'')],
             body = []\<rparr>,
          [''HTTP/1.0 200 Ok'' @ CRLF @ ''Conection: close'' @ CRLF
             @ ''Connection: keep-alive'' @ CRLF @ ''Content-Length: 0'' @ CRLF @ CRLF,
           []])"
  by code_simp

text \<open>
  C3, at the input where the code departs from it. \<open>httpStatusMessage\<close> returns the null
  pointer exactly for the codes outside the table, 999 among them. \<open>Response::errorPage\<close>
  and \<open>Response::send\<close> append that pointer to a \<open>std::string\<close> without a test, so with
  status code 999 both end in the undefined behaviour of appending a null pointer, whatever
  the rest of the response, the request and the socket are.
\<close>

theorem unknown_status_appends_null_pointer:
  "(httpStatusMessage c = None) =
     (c \<notin> {200, 301, 302, 304, 307, 400, 401, 403, 404, 405, 411, 413, 414, 429,
            500, 502, 503, 504, 505})
   \<and> httpStatusMessage 999 = None
   \<and> errorPage (res\<lparr>statusCode := 999\<rparr>) = Inl NullPointerAppend
   \<and> send wr rq (res\<lparr>statusCode := 999\<rparr>) = Inl NullPointerAppend"
proof -
  have n: "httpStatusMessage 999 = None"
    by (simp add: status_known)
  show ?thesis
    by (simp add: status_known errorPage_def send_def header_def Let_def n)
qed



text \<open>
  C6. The bytes \<open><\<close>, \<open>>\<close>, double quote and single quote are dropped while the path and the
  query string are accumulated. For a buffer \<open>m SP u SP rest\<close> (no space in \<open>m\<close>, no space and
  no \<open>?\<close> in \<open>u\<close>) the parsed url is \<open>u\<close> without these four bytes, in order, and the query
  string is left as it was. For a buffer \<open>m SP u ? q SP rest\<close> (no space in \<open>q\<close>) the parsed url
  is \<open>u\<close> and the parsed query string is \<open>q\<close>, each without the four bytes. For every buffer,
  if url and query string held none of the four bytes before the call, as on a new request,
  they hold none after it. The path \<open>/<script>\<close> is parsed to \<open>/script\<close>, and the request line
  \<open>GET /<a>?q="'<b>&r=1 HTTP/1.1\<close> to the url \<open>/a\<close> and the query string \<open>q=b&r=1\<close>.
\<close>

theorem url_and_query_filtered:
  "(set (url rq) \<inter> {CHR ''<'', CHR ''>'', DQUOTE, SQUOTE} = {}
      \<and> set (queryString rq) \<inter> {CHR ''<'', CHR ''>'', DQUOTE, SQUOTE} = {}
    \<longrightarrow> set (url (snd (httpRequestParse rq buf))) \<inter> {CHR ''<'', CHR ''>'', DQUOTE, SQUOTE} = {}
      \<and> set (queryString (snd (httpRequestParse rq buf))) \<inter> {CHR ''<'', CHR ''>'', DQUOTE, SQUOTE} = {})
   \<and> (set (url (snd (httpRequestParse newRequest buf))) \<inter> {CHR ''<'', CHR ''>'', DQUOTE, SQUOTE} = {}
      \<and> set (queryString (snd (httpRequestParse newRequest buf))) \<inter> {CHR ''<'', CHR ''>'', DQUOTE, SQUOTE} = {})
   \<and> url (snd (httpRequestParse newRequest (''GET /<script> HTTP/1.1'' @ CRLF @ CRLF))) = ''/script''
   \<and> (CHR '' '' \<notin> set m \<and> CHR '' '' \<notin> set u \<and> CHR ''?'' \<notin> set u \<longrightarrow>
        url (snd (httpRequestParse rq (m @ '' '' @ u @ '' '' @ rest)))
          = filter (\<lambda>c. c \<notin> {CHR ''<'', CHR ''>'', DQUOTE, SQUOTE}) u
        \<and> queryString (snd (httpRequestParse rq (m @ '' '' @ u @ '' '' @ rest))) = queryString rq)
   \<and> (CHR '' '' \<notin> set m \<and> CHR '' '' \<notin> set u \<and> CHR ''?'' \<notin> set u \<and> CHR '' '' \<notin> set q \<longrightarrow>
        url (snd (httpRequestParse rq (m @ '' '' @ u @ ''?'' @ q @ '' '' @ rest)))
          = filter (\<lambda>c. c \<notin> {CHR ''<'', CHR ''>'', DQUOTE, SQUOTE}) u
        \<and> queryString (snd (httpRequestParse rq (m @ '' '' @ u @ ''?'' @ q @ '' '' @ rest)))
          = filter (\<lambda>c. c \<notin> {CHR ''<'', CHR ''>'', DQUOTE, SQUOTE}) q)
   \<and> snd (httpRequestParse newRequest
          (''GET /<a>?q='' @ [DQUOTE, SQUOTE] @ ''<b>&r=1 HTTP/1.1'' @ CRLF @ CRLF)) =
       \<lparr>hasError = False, method = ''GET'', url = ''/a'', queryString = ''q=b&r=1'',
         httpMajorVersion = 1, httpMinorVersion = 1, req_headers = []\<rparr>"
proof (intro conjI impI)
  assume a: "set (url rq) \<inter> {CHR ''<'', CHR ''>'', DQUOTE, SQUOTE} = {}
      \<and> set (queryString rq) \<inter> {CHR ''<'', CHR ''>'', DQUOTE, SQUOTE} = {}"
  show "set (url (snd (httpRequestParse rq buf))) \<inter> {CHR ''<'', CHR ''>'', DQUOTE, SQUOTE} = {}"
    using xss_parse [of rq buf] a by (elim conjE) (rule conjunct1)
  show "set (queryString (snd (httpRequestParse rq buf))) \<inter> {CHR ''<'', CHR ''>'', DQUOTE, SQUOTE} = {}"
    using xss_parse [of rq buf] a by (elim conjE) (rule conjunct2)
next
  have n1: "set (url newRequest) \<inter> {CHR ''<'', CHR ''>'', DQUOTE, SQUOTE} = {}"
    by (simp add: newRequest_def)
  have n2: "set (queryString newRequest) \<inter> {CHR ''<'', CHR ''>'', DQUOTE, SQUOTE} = {}"
    by (simp add: newRequest_def)
  show "set (url (snd (httpRequestParse newRequest buf))) \<inter> {CHR ''<'', CHR ''>'', DQUOTE, SQUOTE} = {}"
    by (rule conjunct1 [OF xss_parse [OF n1 n2]])
  show "set (queryString (snd (httpRequestParse newRequest buf))) \<inter> {CHR ''<'', CHR ''>'', DQUOTE, SQUOTE} = {}"
    by (rule conjunct2 [OF xss_parse [OF n1 n2]])
next
  show "url (snd (httpRequestParse newRequest (''GET /<script> HTTP/1.1'' @ CRLF @ CRLF))) = ''/script''"
    by code_simp
next
  assume a: "CHR '' '' \<notin> set m \<and> CHR '' '' \<notin> set u \<and> CHR ''?'' \<notin> set u"
  then have h: "CHR '' '' \<notin> set m" "CHR '' '' \<notin> set u" "CHR ''?'' \<notin> set u"
    by simp_all
  show "url (snd (httpRequestParse rq (m @ '' '' @ u @ '' '' @ rest)))
          = filter (\<lambda>c. c \<notin> {CHR ''<'', CHR ''>'', DQUOTE, SQUOTE}) u"
    using path_only_parse(1) [OF h, of rq rest] by simp
  show "queryString (snd (httpRequestParse rq (m @ '' '' @ u @ '' '' @ rest))) = queryString rq"
    using path_only_parse(2) [OF h, of rq rest] by simp
next
  assume a: "CHR '' '' \<notin> set m \<and> CHR '' '' \<notin> set u \<and> CHR ''?'' \<notin> set u \<and> CHR '' '' \<notin> set q"
  then have h: "CHR '' '' \<notin> set m" "CHR '' '' \<notin> set u" "CHR ''?'' \<notin> set u" "CHR '' '' \<notin> set q"
    by simp_all
  show "url (snd (httpRequestParse rq (m @ '' '' @ u @ ''?'' @ q @ '' '' @ rest)))
          = filter (\<lambda>c. c \<notin> {CHR ''<'', CHR ''>'', DQUOTE, SQUOTE}) u"
    using path_query_parse(1) [OF h, of rq rest] by simp
  show "queryString (snd (httpRequestParse rq (m @ '' '' @ u @ ''?'' @ q @ '' '' @ rest)))
          = filter (\<lambda>c. c \<notin> {CHR ''<'', CHR ''>'', DQUOTE, SQUOTE}) q"
    using path_query_parse(2) [OF h, of rq rest] by simp
next
  show "snd (httpRequestParse newRequest
          (''GET /<a>?q='' @ [DQUOTE, SQUOTE] @ ''<b>&r=1 HTTP/1.1'' @ CRLF @ CRLF)) =
       \<lparr>hasError = False, method = ''GET'', url = ''/a'', queryString = ''q=b&r=1'',
         httpMajorVersion = 1, httpMinorVersion = 1, req_headers = []\<rparr>"
    by code_simp
qed

theorem url_and_query_filtered_witness:
  "set (url (newRequest\<lparr>url := ''/old''\<rparr>)) \<inter> {CHR ''<'', CHR ''>'', DQUOTE, SQUOTE} = {}
   \<and> set (queryString (newRequest\<lparr>url := ''/old''\<rparr>)) \<inter> {CHR ''<'', CHR ''>'', DQUOTE, SQUOTE} = {}
   \<and> set (url (snd (httpRequestParse (newRequest\<lparr>url := ''/old''\<rparr>)
              (''GET /<a>?q='' @ [DQUOTE, SQUOTE] @ ''<b> HTTP/1.1'' @ CRLF))))
        \<inter> {CHR ''<'', CHR ''>'', DQUOTE, SQUOTE} = {}
   \<and> set (queryString (snd (httpRequestParse (newRequest\<lparr>url := ''/old''\<rparr>)
              (''GET /<a>?q='' @ [DQUOTE, SQUOTE] @ ''<b> HTTP/1.1'' @ CRLF))))
        \<inter> {CHR ''<'', CHR ''>'', DQUOTE, SQUOTE} = {}
   \<and> CHR '' '' \<notin> set ''GET'' \<and> CHR '' '' \<notin> set ''/<a>'' \<and> CHR ''?'' \<notin> set ''/<a>''
   \<and> CHR '' '' \<notin> set (''q='' @ [DQUOTE, SQUOTE] @ ''<b>'')
   \<and> url (snd (httpRequestParse (newRequest\<lparr>url := ''/old''\<rparr>)
          (''GET'' @ '' '' @ ''/<a>'' @ '' '' @ (''HTTP/1.1'' @ CRLF)))) = ''/a''
   \<and> queryString (snd (httpRequestParse (newRequest\<lparr>url := ''/old''\<rparr>)
          (''GET'' @ '' '' @ ''/<a>'' @ '' '' @ (''HTTP/1.1'' @ CRLF)))) = []
   \<and> url (snd (httpRequestParse (newRequest\<lparr>url := ''/old''\<rparr>)
          (''GET'' @ '' '' @ ''/<a>'' @ ''?'' @ (''q='' @ [DQUOTE, SQUOTE] @ ''<b>'') @ '' ''
             @ (''HTTP/1.1'' @ CRLF)))) = ''/a''
   \<and> queryString (snd (httpRequestParse (newRequest\<lparr>url := ''/old''\<rparr>)
          (''GET'' @ '' '' @ ''/<a>'' @ ''?'' @ (''q='' @ [DQUOTE, SQUOTE] @ ''<b>'') @ '' ''
             @ (''HTTP/1.1'' @ CRLF)))) = ''q=b''"
proof -
  let ?rq = "newRequest\<lparr>url := ''/old''\<rparr>"
  let ?q = "''q='' @ [DQUOTE, SQUOTE] @ ''<b>''"
  let ?rest = "''HTTP/1.1'' @ CRLF"
  note t = url_and_query_filtered [of ?rq "''GET /<a>?q='' @ [DQUOTE, SQUOTE] @ ''<b> HTTP/1.1'' @ CRLF"
      "''GET''" "''/<a>''" ?rest ?q]
  have h: "set (url ?rq) \<inter> {CHR ''<'', CHR ''>'', DQUOTE, SQUOTE} = {}
   \<and> set (queryString ?rq) \<inter> {CHR ''<'', CHR ''>'', DQUOTE, SQUOTE} = {}"
    by (simp add: newRequest_def)
  have r: "set (url (snd (httpRequestParse ?rq
              (''GET /<a>?q='' @ [DQUOTE, SQUOTE] @ ''<b> HTTP/1.1'' @ CRLF))))
        \<inter> {CHR ''<'', CHR ''>'', DQUOTE, SQUOTE} = {}
   \<and> set (queryString (snd (httpRequestParse ?rq
              (''GET /<a>?q='' @ [DQUOTE, SQUOTE] @ ''<b> HTTP/1.1'' @ CRLF))))
        \<inter> {CHR ''<'', CHR ''>'', DQUOTE, SQUOTE} = {}"
    by (rule mp [OF conjunct1 [OF t] h])
  have n: "CHR '' '' \<notin> set ''GET''" "CHR '' '' \<notin> set ''/<a>''" "CHR ''?'' \<notin> set ''/<a>''"
    "CHR '' '' \<notin> set ?q"
    by simp_all
  have h1: "CHR '' '' \<notin> set ''GET'' \<and> CHR '' '' \<notin> set ''/<a>'' \<and> CHR ''?'' \<notin> set ''/<a>''"
    by (intro conjI n)
  have h2: "CHR '' '' \<notin> set ''GET'' \<and> CHR '' '' \<notin> set ''/<a>'' \<and> CHR ''?'' \<notin> set ''/<a>''
      \<and> CHR '' '' \<notin> set ?q"
    by (intro conjI n)
  have f1: "filter (\<lambda>c. c \<notin> {CHR ''<'', CHR ''>'', DQUOTE, SQUOTE}) ''/<a>'' = ''/a''"
    by simp
  have f2: "filter (\<lambda>c. c \<notin> {CHR ''<'', CHR ''>'', DQUOTE, SQUOTE}) ?q = ''q=b''"
    by simp
  have q0: "queryString ?rq = []"
    by (simp add: newRequest_def)
  note c1 = mp [OF conjunct1 [OF conjunct2 [OF conjunct2 [OF conjunct2 [OF t]]]] h1]
  note c2 = mp [OF conjunct1 [OF conjunct2 [OF conjunct2 [OF conjunct2 [OF conjunct2 [OF t]]]]] h2]
  show ?thesis
    by (intro conjI conjunct1 [OF h] conjunct2 [OF h] conjunct1 [OF r] conjunct2 [OF r] n
        conjunct1 [OF c1, unfolded f1] conjunct2 [OF c1, unfolded q0]
        conjunct1 [OF c2, unfolded f1] conjunct2 [OF c2, unfolded f2])
qed

text \<open>
  C4. Let the handler receive \<open>recvLen > 0\<close> bytes. If the parser meets the \<open>/\<close> that ends
  the protocol token with a token other than \<open>HTTP\<close>, or if the major version after
  parsing is not 1, then \<open>hasError\<close> is set, and the handler sets status 400, renders the
  error page and sends it: the header block \<open>HTTP/1.x 400 Bad Request\<close> with its four header
  lines is written, then the page unless the first write failed. The outcome does not
  depend on the callback, which is not invoked.
\<close>

theorem protocol_error_answered_400:
  assumes "0 < recvLen"
    and "(\<exists>pre rest. take (nat recvLen) buffer = pre @ CHR ''/'' # rest
            \<and> state (parse_loop (parser_init newRequest) pre) = PARSER_STATE_PROTOCOL
            \<and> tmp (parse_loop (parser_init newRequest) pre) \<noteq> ''HTTP'')
         \<or> httpMajorVersion (snd (httpRequestParse newRequest (take (nat recvLen) buffer))) \<noteq> 1"
  shows "hasError (snd (httpRequestParse newRequest (take (nat recvLen) buffer)))
     \<and> serverRequestHandler cb wr recvLen buffer =
        (let rq = snd (httpRequestParse newRequest (take (nat recvLen) buffer));
             B = errorBody400;
             R = \<lparr>statusCode = 400,
                   headers = [(''Cache-Control'', ''no-cache, no-store, must-revalidate''),
                              (''Conection'', ''close''), (''Content-Length'', ''124''),
                              (''Content-Type'', ''text/html'')],
                   body = B\<rparr>;
             head = ''HTTP/1.'' @ [if httpMinorVersion rq = 0 then CHR ''0'' else CHR ''1'']
               @ '' 400 Bad Request'' @ CRLF
               @ ''Cache-Control: no-cache, no-store, must-revalidate'' @ CRLF
               @ ''Conection: close'' @ CRLF
               @ ''Content-Length: 124'' @ CRLF
               @ ''Content-Type: text/html'' @ CRLF @ CRLF
         in if wr head < 0 then ErrorSent False R [head]
            else ErrorSent (\<not> wr B < 0) R [head, B])
     \<and> serverRequestHandler cb wr recvLen buffer \<noteq> Dispatched r"
proof -
  have err: "hasError (snd (httpRequestParse newRequest (take (nat recvLen) buffer)))"
    using assms(2)
  proof
    assume "\<exists>pre rest. take (nat recvLen) buffer = pre @ CHR ''/'' # rest
            \<and> state (parse_loop (parser_init newRequest) pre) = PARSER_STATE_PROTOCOL
            \<and> tmp (parse_loop (parser_init newRequest) pre) \<noteq> ''HTTP''"
    then obtain pre rest where "take (nat recvLen) buffer = pre @ CHR ''/'' # rest"
      and "state (parse_loop (parser_init newRequest) pre) = PARSER_STATE_PROTOCOL"
      and "tmp (parse_loop (parser_init newRequest) pre) \<noteq> ''HTTP''"
      by blast
    then show ?thesis
      using bad_protocol_sets_error [of newRequest pre rest] by simp
  next
    assume "httpMajorVersion (snd (httpRequestParse newRequest (take (nat recvLen) buffer))) \<noteq> 1"
    then show ?thesis
      by (simp add: parse_fields hasError_parse)
  qed
  have h: "serverRequestHandler cb wr recvLen buffer =
        (let rq = snd (httpRequestParse newRequest (take (nat recvLen) buffer));
             B = errorBody400;
             R = \<lparr>statusCode = 400,
                   headers = [(''Cache-Control'', ''no-cache, no-store, must-revalidate''),
                              (''Conection'', ''close''), (''Content-Length'', ''124''),
                              (''Content-Type'', ''text/html'')],
                   body = B\<rparr>;
             head = ''HTTP/1.'' @ [if httpMinorVersion rq = 0 then CHR ''0'' else CHR ''1'']
               @ '' 400 Bad Request'' @ CRLF
               @ ''Cache-Control: no-cache, no-store, must-revalidate'' @ CRLF
               @ ''Conection: close'' @ CRLF
               @ ''Content-Length: 124'' @ CRLF
               @ ''Content-Type: text/html'' @ CRLF @ CRLF
         in if wr head < 0 then ErrorSent False R [head]
            else ErrorSent (\<not> wr B < 0) R [head, B])"
    unfolding handler_error_path [OF assms(1) err] send_400
    by (simp add: Let_def)
  have "serverRequestHandler cb wr recvLen buffer \<noteq> Dispatched r"
    unfolding h by (simp add: Let_def)
  with err h show ?thesis by (intro conjI)
qed

theorem protocol_error_answered_400_witness:
  "(0::int) < 17
   \<and> take (nat 17) (''GET / FOO/1.1'' @ CRLF @ CRLF) = ''GET / FOO'' @ CHR ''/'' # (''1.1'' @ CRLF @ CRLF)
   \<and> state (parse_loop (parser_init newRequest) ''GET / FOO'') = PARSER_STATE_PROTOCOL
   \<and> tmp (parse_loop (parser_init newRequest) ''GET / FOO'') \<noteq> ''HTTP''
   \<and> hasError (snd (httpRequestParse newRequest (take (nat 17) (''GET / FOO/1.1'' @ CRLF @ CRLF))))
   \<and> serverRequestHandler (Some (\<lambda>rq res. True)) write_ok 17 (''GET / FOO/1.1'' @ CRLF @ CRLF) =
        ErrorSent True
          \<lparr>statusCode = 400,
            headers = [(''Cache-Control'', ''no-cache, no-store, must-revalidate''),
                       (''Conection'', ''close''), (''Content-Length'', ''124''),
                       (''Content-Type'', ''text/html'')],
            body = errorBody400\<rparr>
          [''HTTP/1.1 400 Bad Request'' @ CRLF
             @ ''Cache-Control: no-cache, no-store, must-revalidate'' @ CRLF
             @ ''Conection: close'' @ CRLF
             @ ''Content-Length: 124'' @ CRLF
             @ ''Content-Type: text/html'' @ CRLF @ CRLF,
           errorBody400]"
proof -
  have a: "(0::int) < 17" by simp
  have b: "take (nat 17) (''GET / FOO/1.1'' @ CRLF @ CRLF) = ''GET / FOO'' @ CHR ''/'' # (''1.1'' @ CRLF @ CRLF)"
    by simp
  have c: "state (parse_loop (parser_init newRequest) ''GET / FOO'') = PARSER_STATE_PROTOCOL"
    by code_simp
  have d: "tmp (parse_loop (parser_init newRequest) ''GET / FOO'') \<noteq> ''HTTP''"
    by code_simp
  have hyp: "(\<exists>pre rest. take (nat 17) (''GET / FOO/1.1'' @ CRLF @ CRLF) = pre @ CHR ''/'' # rest
            \<and> state (parse_loop (parser_init newRequest) pre) = PARSER_STATE_PROTOCOL
            \<and> tmp (parse_loop (parser_init newRequest) pre) \<noteq> ''HTTP'')
         \<or> httpMajorVersion (snd (httpRequestParse newRequest (take (nat 17) (''GET / FOO/1.1'' @ CRLF @ CRLF)))) \<noteq> 1"
    using b c d by blast
  have m: "httpMinorVersion (snd (httpRequestParse newRequest (take (nat 17) (''GET / FOO/1.1'' @ CRLF @ CRLF)))) = 1"
    by code_simp
  note t = protocol_error_answered_400 [OF a hyp, of "Some (\<lambda>rq res. True)" write_ok]
  have e: "hasError (snd (httpRequestParse newRequest (take (nat 17) (''GET / FOO/1.1'' @ CRLF @ CRLF))))"
    by (rule conjunct1 [OF t])
  have f: "serverRequestHandler (Some (\<lambda>rq res. True)) write_ok 17 (''GET / FOO/1.1'' @ CRLF @ CRLF) =
        ErrorSent True
          \<lparr>statusCode = 400,
            headers = [(''Cache-Control'', ''no-cache, no-store, must-revalidate''),
                       (''Conection'', ''close''), (''Content-Length'', ''124''),
                       (''Content-Type'', ''text/html'')],
            body = errorBody400\<rparr>
          [''HTTP/1.1 400 Bad Request'' @ CRLF
             @ ''Cache-Control: no-cache, no-store, must-revalidate'' @ CRLF
             @ ''Conection: close'' @ CRLF
             @ ''Content-Length: 124'' @ CRLF
             @ ''Content-Type: text/html'' @ CRLF @ CRLF,
           errorBody400]"
    using m unfolding conjunct1 [OF conjunct2 [OF t]]
    by (simp add: Let_def write_ok_def)
  show ?thesis
    by (intro conjI a b c d e f)
qed

text \<open>
  C7. Header names are lower-cased before they enter the headers map. If no key of the
  request's headers map holds a byte in \<open>A\<close> .. \<open>Z\<close> before the call, as on a new request, then
  no key does after \<open>httpRequestParse\<close>, for every buffer. If the parser is at the start of a
  header name after the bytes \<open>pre\<close>, a name \<open>K\<close> without colon and line feed followed by a
  colon registers the key that is \<open>K\<close> with every byte in \<open>A\<close> .. \<open>Z\<close> raised by 32 and every
  other byte unchanged, with an empty value. Two names that become equal under this map,
  followed by a colon and the same bytes, give the same request. The header lines
  \<open>Host: a\<close> and \<open>host: a\<close> both give the map with the one key \<open>host\<close>, and the name
  \<open>ABCDEFGHIJKLMNOPQRSTUVWXYZ-@[`az{09\<close> is stored as \<open>abcdefghijklmnopqrstuvwxyz-@[`az{09\<close>.
\<close>

theorem header_keys_lower_cased:
  "((\<forall>k\<in>fst ` set (req_headers rq). \<forall>c\<in>set k. \<not> (CHR ''A'' \<le> c \<and> c \<le> CHR ''Z'')) \<longrightarrow>
      (\<forall>k\<in>fst ` set (req_headers (snd (httpRequestParse rq buf))).
         \<forall>c\<in>set k. \<not> (CHR ''A'' \<le> c \<and> c \<le> CHR ''Z'')))
   \<and> (\<forall>k\<in>fst ` set (req_headers (snd (httpRequestParse newRequest buf))).
         \<forall>c\<in>set k. \<not> (CHR ''A'' \<le> c \<and> c \<le> CHR ''Z''))
   \<and> (state (parse_loop (parser_init rq) pre) = PARSER_STATE_HEADERS
        \<and> isKey (parse_loop (parser_init rq) pre)
        \<and> tmp (parse_loop (parser_init rq) pre) = []
        \<and> CHR '':'' \<notin> set K \<and> LF \<notin> set K
      \<longrightarrow> req_headers (snd (httpRequestParse rq (pre @ K @ '':''))) =
            map_assign (req_headers (req (parse_loop (parser_init rq) pre)))
              (map (\<lambda>c. if CHR ''A'' \<le> c \<and> c \<le> CHR ''Z''
                        then char_of (of_char c + (32::nat)) else c) K) [])
   \<and> (state (parse_loop (parser_init rq) pre) = PARSER_STATE_HEADERS
        \<and> isKey (parse_loop (parser_init rq) pre)
        \<and> map (\<lambda>c. if CHR ''A'' \<le> c \<and> c \<le> CHR ''Z'' then char_of (of_char c + (32::nat)) else c) K1
          = map (\<lambda>c. if CHR ''A'' \<le> c \<and> c \<le> CHR ''Z'' then char_of (of_char c + (32::nat)) else c) K2
        \<and> CHR '':'' \<notin> set K1 \<and> LF \<notin> set K1 \<and> CHR '':'' \<notin> set K2 \<and> LF \<notin> set K2
      \<longrightarrow> httpRequestParse rq (pre @ K1 @ '':'' @ post) = httpRequestParse rq (pre @ K2 @ '':'' @ post))
   \<and> req_headers (snd (httpRequestParse newRequest
        (''GET / HTTP/1.1'' @ CRLF @ ''Host: a'' @ CRLF @ CRLF))) = [(''host'', ''a'')]
   \<and> req_headers (snd (httpRequestParse newRequest
        (''GET / HTTP/1.1'' @ CRLF @ ''host: a'' @ CRLF @ CRLF))) = [(''host'', ''a'')]
   \<and> req_headers (snd (httpRequestParse newRequest
        (''GET / HTTP/1.1'' @ CRLF @ ''ABCDEFGHIJKLMNOPQRSTUVWXYZ-@[`az{09: v'' @ CRLF @ CRLF)))
       = [(''abcdefghijklmnopqrstuvwxyz-@[`az{09'', ''v'')]"
proof (intro conjI impI)
  assume "\<forall>k\<in>fst ` set (req_headers rq). \<forall>c\<in>set k. \<not> (CHR ''A'' \<le> c \<and> c \<le> CHR ''Z'')"
  then have "lower_keys (req_headers rq)"
    by (simp only: lower_keys_iff)
  then have "lower_keys (req_headers (snd (httpRequestParse rq buf)))"
    by (rule lower_parse)
  then show "\<forall>k\<in>fst ` set (req_headers (snd (httpRequestParse rq buf))).
         \<forall>c\<in>set k. \<not> (CHR ''A'' \<le> c \<and> c \<le> CHR ''Z'')"
    by (simp only: lower_keys_iff)
next
  have "lower_keys (req_headers newRequest)"
    by (simp add: lower_keys_def newRequest_def)
  then have "lower_keys (req_headers (snd (httpRequestParse newRequest buf)))"
    by (rule lower_parse)
  then show "\<forall>k\<in>fst ` set (req_headers (snd (httpRequestParse newRequest buf))).
         \<forall>c\<in>set k. \<not> (CHR ''A'' \<le> c \<and> c \<le> CHR ''Z'')"
    by (simp only: lower_keys_iff)
next
  assume a: "state (parse_loop (parser_init rq) pre) = PARSER_STATE_HEADERS
        \<and> isKey (parse_loop (parser_init rq) pre)
        \<and> tmp (parse_loop (parser_init rq) pre) = []
        \<and> CHR '':'' \<notin> set K \<and> LF \<notin> set K"
  then have h: "state (parse_loop (parser_init rq) pre) = PARSER_STATE_HEADERS"
    "isKey (parse_loop (parser_init rq) pre)" "tmp (parse_loop (parser_init rq) pre) = []"
    "CHR '':'' \<notin> set K" "LF \<notin> set K"
    by simp_all
  show "req_headers (snd (httpRequestParse rq (pre @ K @ '':''))) =
            map_assign (req_headers (req (parse_loop (parser_init rq) pre)))
              (map (\<lambda>c. if CHR ''A'' \<le> c \<and> c \<le> CHR ''Z''
                        then char_of (of_char c + (32::nat)) else c) K) []"
    by (rule key_registered [OF h])
next
  assume a: "state (parse_loop (parser_init rq) pre) = PARSER_STATE_HEADERS
        \<and> isKey (parse_loop (parser_init rq) pre)
        \<and> map (\<lambda>c. if CHR ''A'' \<le> c \<and> c \<le> CHR ''Z'' then char_of (of_char c + (32::nat)) else c) K1
          = map (\<lambda>c. if CHR ''A'' \<le> c \<and> c \<le> CHR ''Z'' then char_of (of_char c + (32::nat)) else c) K2
        \<and> CHR '':'' \<notin> set K1 \<and> LF \<notin> set K1 \<and> CHR '':'' \<notin> set K2 \<and> LF \<notin> set K2"
  then have h: "state (parse_loop (parser_init rq) pre) = PARSER_STATE_HEADERS"
    "isKey (parse_loop (parser_init rq) pre)"
    "strtolower K1 = strtolower K2"
    "CHR '':'' \<notin> set K1" "LF \<notin> set K1" "CHR '':'' \<notin> set K2" "LF \<notin> set K2"
    unfolding strtolower_explicit by blast+
  have "httpRequestParse rq (pre @ K1 @ CHR '':'' # post) = httpRequestParse rq (pre @ K2 @ CHR '':'' # post)"
    by (rule key_case_insensitive [OF h])
  then show "httpRequestParse rq (pre @ K1 @ '':'' @ post) = httpRequestParse rq (pre @ K2 @ '':'' @ post)"
    by simp
next
  show "req_headers (snd (httpRequestParse newRequest
        (''GET / HTTP/1.1'' @ CRLF @ ''Host: a'' @ CRLF @ CRLF))) = [(''host'', ''a'')]"
    by code_simp
  show "req_headers (snd (httpRequestParse newRequest
        (''GET / HTTP/1.1'' @ CRLF @ ''host: a'' @ CRLF @ CRLF))) = [(''host'', ''a'')]"
    by code_simp
  show "req_headers (snd (httpRequestParse newRequest
        (''GET / HTTP/1.1'' @ CRLF @ ''ABCDEFGHIJKLMNOPQRSTUVWXYZ-@[`az{09: v'' @ CRLF @ CRLF)))
       = [(''abcdefghijklmnopqrstuvwxyz-@[`az{09'', ''v'')]"
    by code_simp
qed


theorem header_keys_lower_cased_witness:
  "list_all (list_all (\<lambda>c. \<not> (CHR ''A'' \<le> c \<and> c \<le> CHR ''Z'')))
      (map fst (req_headers (newRequest\<lparr>req_headers := [(''accept'', ''x'')]\<rparr>)))
   \<and> list_all (list_all (\<lambda>c. \<not> (CHR ''A'' \<le> c \<and> c \<le> CHR ''Z'')))
      (map fst (req_headers (snd (httpRequestParse (newRequest\<lparr>req_headers := [(''accept'', ''x'')]\<rparr>)
          (''GET / HTTP/1.1'' @ CRLF @ ''Host: a'' @ CRLF @ ''X-Id: 7'' @ CRLF)))))
   \<and> state (parse_loop (parser_init (newRequest\<lparr>req_headers := [(''accept'', ''x'')]\<rparr>)) (''GET / HTTP/1.1'' @ CRLF)) = PARSER_STATE_HEADERS
   \<and> isKey (parse_loop (parser_init (newRequest\<lparr>req_headers := [(''accept'', ''x'')]\<rparr>)) (''GET / HTTP/1.1'' @ CRLF))
   \<and> tmp (parse_loop (parser_init (newRequest\<lparr>req_headers := [(''accept'', ''x'')]\<rparr>)) (''GET / HTTP/1.1'' @ CRLF)) = []
   \<and> map (\<lambda>c. if CHR ''A'' \<le> c \<and> c \<le> CHR ''Z'' then char_of (of_char c + (32::nat)) else c) ''Host''
       = map (\<lambda>c. if CHR ''A'' \<le> c \<and> c \<le> CHR ''Z'' then char_of (of_char c + (32::nat)) else c) ''host''
   \<and> CHR '':'' \<notin> set ''Host'' \<and> LF \<notin> set ''Host'' \<and> CHR '':'' \<notin> set ''host'' \<and> LF \<notin> set ''host''
   \<and> CHR '':'' \<notin> set ''Content-Length'' \<and> LF \<notin> set ''Content-Length''
   \<and> httpRequestParse (newRequest\<lparr>req_headers := [(''accept'', ''x'')]\<rparr>)
        ((''GET / HTTP/1.1'' @ CRLF) @ ''Host'' @ '':'' @ ('' a'' @ CRLF @ CRLF))
     = httpRequestParse (newRequest\<lparr>req_headers := [(''accept'', ''x'')]\<rparr>)
        ((''GET / HTTP/1.1'' @ CRLF) @ ''host'' @ '':'' @ ('' a'' @ CRLF @ CRLF))
   \<and> req_headers (snd (httpRequestParse (newRequest\<lparr>req_headers := [(''accept'', ''x'')]\<rparr>)
        ((''GET / HTTP/1.1'' @ CRLF) @ ''Content-Length'' @ '':'')))
     = [(''accept'', ''x''), (''content-length'', [])]"
proof -
  let ?rq = "newRequest\<lparr>req_headers := [(''accept'', ''x'')]\<rparr>"
  let ?buf = "''GET / HTTP/1.1'' @ CRLF @ ''Host: a'' @ CRLF @ ''X-Id: 7'' @ CRLF"
  let ?pre = "''GET / HTTP/1.1'' @ CRLF"
  let ?post = "'' a'' @ CRLF @ CRLF"
  note t = header_keys_lower_cased [of ?rq ?buf ?pre "''Content-Length''" "''Host''" "''host''" ?post]
  have h1': "list_all (list_all (\<lambda>c. \<not> (CHR ''A'' \<le> c \<and> c \<le> CHR ''Z''))) (map fst (req_headers ?rq))"
    by code_simp
  then have h1: "\<forall>k\<in>fst ` set (req_headers ?rq). \<forall>c\<in>set k. \<not> (CHR ''A'' \<le> c \<and> c \<le> CHR ''Z'')"
    by (simp only: all_keys_iff)
  have c1: "\<forall>k\<in>fst ` set (req_headers (snd (httpRequestParse ?rq ?buf))).
      \<forall>c\<in>set k. \<not> (CHR ''A'' \<le> c \<and> c \<le> CHR ''Z'')"
    by (rule mp [OF conjunct1 [OF t] h1])
  then have c1': "list_all (list_all (\<lambda>c. \<not> (CHR ''A'' \<le> c \<and> c \<le> CHR ''Z'')))
      (map fst (req_headers (snd (httpRequestParse ?rq ?buf))))"
    by (simp only: all_keys_iff)
  have s: "state (parse_loop (parser_init ?rq) ?pre) = PARSER_STATE_HEADERS"
    by code_simp
  have k: "isKey (parse_loop (parser_init ?rq) ?pre)"
    by code_simp
  have e: "tmp (parse_loop (parser_init ?rq) ?pre) = []"
    by code_simp
  have l: "map (\<lambda>c. if CHR ''A'' \<le> c \<and> c \<le> CHR ''Z'' then char_of (of_char c + (32::nat)) else c) ''Host''
       = map (\<lambda>c. if CHR ''A'' \<le> c \<and> c \<le> CHR ''Z'' then char_of (of_char c + (32::nat)) else c) ''host''"
    by code_simp
  have n: "CHR '':'' \<notin> set ''Host''" "LF \<notin> set ''Host''" "CHR '':'' \<notin> set ''host''" "LF \<notin> set ''host''"
    by simp_all
  have n': "CHR '':'' \<notin> set ''Content-Length''" "LF \<notin> set ''Content-Length''"
    by simp_all
  have h2: "state (parse_loop (parser_init ?rq) ?pre) = PARSER_STATE_HEADERS
        \<and> isKey (parse_loop (parser_init ?rq) ?pre)
        \<and> tmp (parse_loop (parser_init ?rq) ?pre) = []
        \<and> CHR '':'' \<notin> set ''Content-Length'' \<and> LF \<notin> set ''Content-Length''"
    by (intro conjI s k e n')
  have h3: "state (parse_loop (parser_init ?rq) ?pre) = PARSER_STATE_HEADERS
        \<and> isKey (parse_loop (parser_init ?rq) ?pre)
        \<and> map (\<lambda>c. if CHR ''A'' \<le> c \<and> c \<le> CHR ''Z'' then char_of (of_char c + (32::nat)) else c) ''Host''
          = map (\<lambda>c. if CHR ''A'' \<le> c \<and> c \<le> CHR ''Z'' then char_of (of_char c + (32::nat)) else c) ''host''
        \<and> CHR '':'' \<notin> set ''Host'' \<and> LF \<notin> set ''Host'' \<and> CHR '':'' \<notin> set ''host'' \<and> LF \<notin> set ''host''"
    by (intro conjI s k l n)
  have v: "map_assign (req_headers (req (parse_loop (parser_init ?rq) ?pre)))
              (map (\<lambda>c. if CHR ''A'' \<le> c \<and> c \<le> CHR ''Z''
                        then char_of (of_char c + (32::nat)) else c) ''Content-Length'') []
         = [(''accept'', ''x''), (''content-length'', [])]"
    by code_simp
  have c2: "req_headers (snd (httpRequestParse ?rq (?pre @ ''Content-Length'' @ '':'')))
     = [(''accept'', ''x''), (''content-length'', [])]"
    using mp [OF conjunct1 [OF conjunct2 [OF conjunct2 [OF t]]] h2] unfolding v .
  have c3: "httpRequestParse ?rq (?pre @ ''Host'' @ '':'' @ ?post) = httpRequestParse ?rq (?pre @ ''host'' @ '':'' @ ?post)"
    by (rule mp [OF conjunct1 [OF conjunct2 [OF conjunct2 [OF conjunct2 [OF t]]]] h3])
  show ?thesis
    by (intro conjI h1' c1' s k e l n n' c3 c2)
qed

text \<open>
  C2 as stated fails. A response receives \<open>header("Content-Type", ...)\<close>,
  \<open>header("Server", ...)\<close>, \<open>header("Cache-Control", ...)\<close> in this order, as in the callback
  of \<open>example.cc\<close>, and is sent. The header block has the lines in the order Cache-Control,
  Conection, Content-Length, Content-Type, Server, and is not the block with the lines in
  the order of insertion.
\<close>

theorem send_header_lines_not_in_insertion_order:
  "send write_ok newRequest
     (header (header (header newResponse ''Content-Type'' ''text/plain'')
        ''Server'' ''ExampleHTTPServer'')
        ''Cache-Control'' ''no-cache, no-store, must-revalidate'') =
   Inr (True,
     \<lparr>statusCode = 200,
       headers = [(''Cache-Control'', ''no-cache, no-store, must-revalidate''),
                  (''Conection'', ''close''),
                  (''Content-Length'', ''0''),
                  (''Content-Type'', ''text/plain''),
                  (''Server'', ''ExampleHTTPServer'')],
       body = []\<rparr>,
     [''HTTP/1.0 200 Ok'' @ CRLF
        @ ''Cache-Control: no-cache, no-store, must-revalidate'' @ CRLF
        @ ''Conection: close'' @ CRLF
        @ ''Content-Length: 0'' @ CRLF
        @ ''Content-Type: text/plain'' @ CRLF
        @ ''Server: ExampleHTTPServer'' @ CRLF
        @ CRLF,
      []])
   \<and> send write_ok newRequest
     (header (header (header newResponse ''Content-Type'' ''text/plain'')
        ''Server'' ''ExampleHTTPServer'')
        ''Cache-Control'' ''no-cache, no-store, must-revalidate'') \<noteq>
   Inr (True,
     \<lparr>statusCode = 200,
       headers = [(''Cache-Control'', ''no-cache, no-store, must-revalidate''),
                  (''Conection'', ''close''),
                  (''Content-Length'', ''0''),
                  (''Content-Type'', ''text/plain''),
                  (''Server'', ''ExampleHTTPServer'')],
       body = []\<rparr>,
     [''HTTP/1.0 200 Ok'' @ CRLF
        @ ''Content-Type: text/plain'' @ CRLF
        @ ''Server: ExampleHTTPServer'' @ CRLF
        @ ''Cache-Control: no-cache, no-store, must-revalidate'' @ CRLF
        @ ''Content-Length: 0'' @ CRLF
        @ ''Conection: close'' @ CRLF
        @ CRLF,
      []])"
  by code_simp


text \<open>
  C2, amended. The headers live in a \<open>std::map\<close>, which iterates in ascending key order.
  For every sequence of \<open>header\<close> calls on a new response with any body and a status code
  that has a reason phrase, \<open>Response::send\<close> writes, after the status line, one line per
  distinct key among the calls and the two keys \<open>send\<close> adds, in ascending order of the keys
  (bytewise, case-sensitive), each with the value assigned to the key last, then the empty
  line.
\<close>

theorem send_header_lines_in_key_order:
  assumes "httpStatusMessage sc = Some m"
  shows "let calls = kvs @ [(''Content-Length'', to_string_nat (length b)), (''Conection'', ''close'')]
     in \<exists>ok res' rest.
        send wr rq (set_headers (newResponse\<lparr>statusCode := sc, body := b\<rparr>) kvs) =
          Inr (ok, res',
            (''HTTP/1.'' @ [if httpMinorVersion rq = 0 then CHR ''0'' else CHR ''1''] @ '' ''
               @ to_string sc @ '' '' @ m @ CRLF
               @ concat (map (\<lambda>k. header_line (k, the (map_of (rev calls) k)))
                           (sorted_list_of_set (fst ` set calls)))
               @ CRLF) # rest)"
proof -
  define calls where "calls = kvs @ [(''Content-Length'', to_string_nat (length b)), (''Conection'', ''close'')]"
  define res where "res = set_headers (newResponse\<lparr>statusCode := sc, body := b\<rparr>) kvs"
  define hs where "hs = foldl (\<lambda>m kv. map_assign m (fst kv) (snd kv)) [] calls"
  have f: "statusCode res = sc" "body res = b"
    "headers res = foldl (\<lambda>m kv. map_assign m (fst kv) (snd kv)) [] kvs"
    by (simp_all add: res_def set_headers_fields newResponse_def)
  have hs: "foldl (\<lambda>m kv. map_assign m (fst kv) (snd kv))
                 (foldl (\<lambda>m kv. map_assign m (fst kv) (snd kv)) [] kvs)
                 [(''Content-Length'', to_string_nat (length b)), (''Conection'', ''close'')] = hs"
    by (simp add: hs_def calls_def)
  have srt: "sorted_wrt (<) (map fst hs)"
    unfolding hs_def by (rule assign_all_sorted) simp
  have mo: "map_of hs = map_of (rev calls)"
    unfolding hs_def by (simp add: assign_all_map_of)
  have ks: "fst ` set hs = fst ` set calls"
    unfolding hs_def by (simp add: assign_all_keys)
  have "hs = map (\<lambda>k. (k, the (map_of (rev calls) k))) (sorted_list_of_set (fst ` set calls))"
    using sorted_keys_repr [OF srt] unfolding mo ks .
  then have lines: "map header_line hs =
      map (\<lambda>k. header_line (k, the (map_of (rev calls) k))) (sorted_list_of_set (fst ` set calls))"
    by (metis (no_types, lifting) map_map comp_def map_eq_conv)
  from assms have "httpStatusMessage (statusCode res) = Some m" by (simp add: f)
  from send_headers_after [OF this, of wr rq]
  obtain ok rest where "send wr rq res =
     Inr (ok, res\<lparr>headers := hs\<rparr>,
       (''HTTP/1.'' @ [if httpMinorVersion rq = 0 then CHR ''0'' else CHR ''1''] @ '' ''
          @ to_string sc @ '' '' @ m @ CRLF @ concat (map header_line hs) @ CRLF) # rest)"
    unfolding f hs by blast
  then show ?thesis
    unfolding lines Let_def calls_def [symmetric] res_def [symmetric] by blast
qed

theorem send_header_lines_in_key_order_witness:
  "httpStatusMessage 200 = Some ''Ok'' \<and>
   (\<exists>ok res' rest.
      send write_ok newRequest
        (set_headers (newResponse\<lparr>statusCode := 200, body := []\<rparr>)
           [(''Content-Type'', ''text/plain''), (''Server'', ''ExampleHTTPServer''),
            (''Cache-Control'', ''no-cache, no-store, must-revalidate'')]) =
      Inr (ok, res',
        (''HTTP/1.0 200 Ok'' @ CRLF
           @ ''Cache-Control: no-cache, no-store, must-revalidate'' @ CRLF
           @ ''Conection: close'' @ CRLF
           @ ''Content-Length: 0'' @ CRLF
           @ ''Content-Type: text/plain'' @ CRLF
           @ ''Server: ExampleHTTPServer'' @ CRLF
           @ CRLF) # rest))"
proof -
  have h: "httpStatusMessage 200 = Some ''Ok''"
    by code_simp
  have t: "to_string 200 = ''200''"
    by code_simp
  have v: "httpMinorVersion newRequest = 0"
    by (simp add: newRequest_def)
  note c = send_header_lines_in_key_order [OF h, of "[(''Content-Type'', ''text/plain''), (''Server'', ''ExampleHTTPServer''),
            (''Cache-Control'', ''no-cache, no-store, must-revalidate'')]" "[]" write_ok newRequest]
  have "\<exists>ok res' rest.
      send write_ok newRequest
        (set_headers (newResponse\<lparr>statusCode := 200, body := []\<rparr>)
           [(''Content-Type'', ''text/plain''), (''Server'', ''ExampleHTTPServer''),
            (''Cache-Control'', ''no-cache, no-store, must-revalidate'')]) =
      Inr (ok, res',
        (''HTTP/1.0 200 Ok'' @ CRLF
           @ ''Cache-Control: no-cache, no-store, must-revalidate'' @ CRLF
           @ ''Conection: close'' @ CRLF
           @ ''Content-Length: 0'' @ CRLF
           @ ''Content-Type: text/plain'' @ CRLF
           @ ''Server: ExampleHTTPServer'' @ CRLF
           @ CRLF) # rest)"
    using c unfolding Let_def example_header_lines t v by simp
  with h show ?thesis by (rule conjI)
qed

end
